theory Spec2Isabelle
  imports Complex_Main
begin

section \<open>Data model (game.ts)\<close>

datatype GameState = waiting | active | finished

text \<open>
  A \<^verbatim>\<open>Player\<close> object. Both \<^verbatim>\<open>players\<close> and \<^verbatim>\<open>alivePlayers\<close> of a game hold
  references to the same objects (\<^verbatim>\<open>addPlayer\<close> pushes one object onto both arrays), and
  \<^verbatim>\<open>handleAction\<close> writes \<^verbatim>\<open>isAlive\<close> through such a reference. The objects therefore
  live in a store, and the arrays hold addresses.
\<close>

record Player =
  userId :: string
  displayName :: string
  isAlive :: bool
  entryAmount :: int

type_synonym ref = nat

text \<open>
  The values of JavaScript's \<^verbatim>\<open>number\<close> that the chamber fields take: an integer, or
  \<^verbatim>\<open>NaN\<close>. A property read is \<open>None\<close> when it yields \<^verbatim>\<open>undefined\<close>.
\<close>

datatype number = Finite int | NaN

fun toNumber :: "number option \<Rightarrow> number" where
  "toNumber None = NaN"
| "toNumber (Some n) = n"

fun js_add :: "number \<Rightarrow> number \<Rightarrow> number" where
  "js_add (Finite a) (Finite b) = Finite (a + b)"
| "js_add _ _ = NaN"

text \<open>The remainder operator \<^verbatim>\<open>%\<close>: the sign of the dividend, \<^verbatim>\<open>NaN\<close> for a zero divisor.\<close>

fun js_rem :: "number \<Rightarrow> number \<Rightarrow> number" where
  "js_rem (Finite a) (Finite b) = (if b = 0 then NaN else Finite (sgn a * (\<bar>a\<bar> mod \<bar>b\<bar>)))"
| "js_rem _ _ = NaN"

text \<open>Strict equality \<^verbatim>\<open>===\<close> on numbers: \<^verbatim>\<open>NaN\<close> equals nothing, itself included.\<close>

fun js_strict_eq :: "number \<Rightarrow> number \<Rightarrow> bool" where
  "js_strict_eq (Finite a) (Finite b) = (a = b)"
| "js_strict_eq _ _ = False"

text \<open>
  Division of \<^verbatim>\<open>bigint\<close> values truncates toward zero. A zero divisor throws a
  \<^verbatim>\<open>RangeError\<close>; that case is written out where a division can meet it.
\<close>

definition bigint_div :: "int \<Rightarrow> int \<Rightarrow> int" where
  "bigint_div a b = sgn a * sgn b * (\<bar>a\<bar> div \<bar>b\<bar>)"

text \<open>
  A \<^verbatim>\<open>Game\<close> object. The two player arrays hold addresses into the store, the dates are
  milliseconds, and the timer is its handle.
\<close>

record Game =
  gameId :: int \<comment> \<open>the time stamp \<open>t\<close> of the id \<^verbatim>\<open>game-t\<close>\<close>
  channelId :: string
  spaceId :: string
  state :: GameState
  players :: "ref list"
  alivePlayers :: "ref list"
  currentTurnIndex :: nat
  poolA :: int
  poolB :: int
  houseRake :: int
  gunChamber :: number
  bulletChamber :: number
  consecutivePasses :: nat
  forcedShoot :: bool
  consecutiveSafeShots :: nat
  lastDeathTime :: "int option"
  turnTimer :: "nat option"
  turnStartTime :: "int option"
  createdAt :: int

text \<open>
  The configuration. Its fields are JavaScript numbers holding whole numbers: counts are
  natural numbers here, and \<^verbatim>\<open>rakePercent\<close> an integer (it goes through \<^verbatim>\<open>BigInt()\<close>,
  which accepts nothing else).
\<close>

record GameConfig =
  minPlayers :: nat
  maxPlayers :: nat
  rakePercent :: int
  passPenalty :: int
  bonusFromB :: int
  turnTimerSeconds :: nat
  chambers :: nat
  bullets :: nat
  maxSafeShots :: nat
  maxGameDurationMinutes :: nat

definition DEFAULT_CONFIG :: GameConfig where
  "DEFAULT_CONFIG = \<lparr> minPlayers = 2, maxPlayers = 6, rakePercent = 10,
     passPenalty = 150000000000000, bonusFromB = 150000000000000,
     turnTimerSeconds = 10, chambers = 6, bullets = 1, maxSafeShots = 18,
     maxGameDurationMinutes = 30 \<rparr>"

section \<open>Economy and chamber primitives (game.ts)\<close>

text \<open>\<^verbatim>\<open>calculateEntryDistribution\<close> returns the pair \<open>(rake, toPoolA)\<close>.\<close>

definition calculateEntryDistribution :: "int \<Rightarrow> int \<Rightarrow> int \<times> int" where
  "calculateEntryDistribution entry rakePct =
     (let rake = bigint_div (entry * rakePct) 100;
          toPoolA = entry - rake
      in (rake, toPoolA))"

text \<open>
  \<^verbatim>\<open>Math.random()\<close> returns a double that is at least 0 and below 1. Every such double
  is \<open>m / 2 ^ k\<close> with \<open>m < 2 ^ 53\<close> and \<open>k \<le> 1074\<close>, and every such quotient below 1 is
  a double; the pair \<open>(m, k)\<close> is the draw.
\<close>

type_synonym draw = "nat \<times> nat"

definition draw_value :: "draw \<Rightarrow> real" where
  "draw_value d = real (fst d) / 2 ^ snd d"

definition unit_draw :: "draw \<Rightarrow> bool" where
  "unit_draw d \<longleftrightarrow> fst d < 2 ^ 53 \<and> snd d \<le> 1074 \<and> draw_value d < 1"

text \<open>
  \<open>rne n s\<close> is \<open>n / 2 ^ s\<close> rounded to the nearest integer, a tie to the even one, the
  rounding of the arithmetic of doubles.
\<close>

definition rne :: "nat \<Rightarrow> nat \<Rightarrow> nat" where
  "rne n s = (let q = n div 2 ^ s; r = n mod 2 ^ s
              in if 2 * r < 2 ^ s then q
                 else if 2 * r > 2 ^ s then q + 1
                 else if even q then q else q + 1)"

text \<open>The number of bits of \<open>n\<close> beyond the 53 of a significand, for \<open>n < 2 ^ 56\<close>.\<close>

definition excess_bits :: "nat \<Rightarrow> nat" where
  "excess_bits n = (if n < 2 ^ 53 then 0 else if n < 2 ^ 54 then 1 else if n < 2 ^ 55 then 2 else 3)"

text \<open>
  \<^verbatim>\<open>Math.random() * 6\<close>, a product of doubles: the exact product \<open>6 m / 2 ^ k\<close> with its
  numerator rounded to 53 significant bits. The exponent needs no care: a product that is
  rounded is at least \<open>2 ^ 53 / 2 ^ 1074\<close>, in the normal range, and the products are
  below 8.
\<close>

definition times6 :: "draw \<Rightarrow> real" where
  "times6 d = (let n = fst d * 6; s = excess_bits n
               in real (rne n s * 2 ^ s) / 2 ^ snd d)"

text \<open>\<^verbatim>\<open>Math.floor(Math.random() * 6)\<close>; the draw of \<^verbatim>\<open>Math.random()\<close> is the argument.\<close>

definition randomBulletPosition :: "draw \<Rightarrow> number" where
  "randomBulletPosition rnd = Finite \<lfloor>times6 rnd\<rfloor>"

definition checkChamber :: "Game \<Rightarrow> bool" where
  "checkChamber game = js_strict_eq (gunChamber game) (bulletChamber game)"

text \<open>
  The read \<^verbatim>\<open>game.chambers\<close> in \<^verbatim>\<open>advanceChamber\<close>. The interface \<^verbatim>\<open>Game\<close>
  declares no property \<^verbatim>\<open>chambers\<close> (it is a property of \<^verbatim>\<open>GameConfig\<close>), and the
  object literal of \<^verbatim>\<open>createGame\<close>, the only place where a game is built, has none: the
  read yields \<^verbatim>\<open>undefined\<close>.
\<close>

definition game_chambers :: "Game \<Rightarrow> number option" where
  "game_chambers game = None"

definition advanceChamber :: "Game \<Rightarrow> Game" where
  "advanceChamber game =
     game\<lparr>gunChamber := js_rem (js_add (gunChamber game) (Finite 1)) (toNumber (game_chambers game))\<rparr>"

definition resetGun :: "draw \<Rightarrow> Game \<Rightarrow> Game" where
  "resetGun rnd game = game\<lparr>gunChamber := Finite 0, bulletChamber := randomBulletPosition rnd\<rparr>"

section \<open>The game manager (gameManager.ts)\<close>

text \<open>
  The manager owns the registry \<^verbatim>\<open>games\<close> (channel id to game) and the configuration.
  \<open>playerStore\<close> is the store of the \<^verbatim>\<open>Player\<close> objects its \<^verbatim>\<open>addPlayer\<close> has allocated;
  the address of an object is its position in the store.
\<close>

record GameManager =
  games :: "string \<Rightarrow> Game option"
  config :: GameConfig
  playerStore :: "Player list"

definition newManager :: "GameConfig \<Rightarrow> GameManager" where
  "newManager cfg = \<lparr> games = (\<lambda>_. None), config = cfg, playerStore = [] \<rparr>"

text \<open>
  The failure results \<^verbatim>\<open>{ success: false, message }\<close>, one constructor per message, and
  the \<^verbatim>\<open>Error\<close> thrown by \<^verbatim>\<open>createGame\<close>.
\<close>

datatype error =
    ConflictError \<comment> \<open>A game is already active in this channel\<close>
  | NotFoundError \<comment> \<open>No game found / No active game found\<close>
  | InvalidStateError \<comment> \<open>Game is already in progress / Game is not active\<close>
  | DuplicateError \<comment> \<open>You are already in this game\<close>
  | CapacityError nat \<comment> \<open>Game is full (max n players)\<close>
  | AlreadyActiveError \<comment> \<open>Game is already active\<close>
  | InsufficientPlayersError nat \<comment> \<open>Need at least n players to start\<close>
  | TurnError string \<comment> \<open>It's not your turn. Current turn: p\<close>
  | EliminatedError \<comment> \<open>You are already eliminated\<close>
  | ForcedShootError \<comment> \<open>Full table passed! You must /shoot\<close>
  | AlreadyFinishedError \<comment> \<open>Game is already finished\<close>

text \<open>\<^verbatim>\<open>createGame(channelId, spaceId)\<close>, with the clock and the random draw it reads.\<close>

definition createGame :: "int \<Rightarrow> draw \<Rightarrow> string \<Rightarrow> string \<Rightarrow> GameManager \<Rightarrow> error + GameManager \<times> Game" where
  "createGame now rnd cid sid m =
     (if (case games m cid of None \<Rightarrow> False | Some existing \<Rightarrow> state existing = active)
      then Inl ConflictError
      else
        let game = \<lparr> gameId = now, channelId = cid, spaceId = sid, state = waiting,
                     players = [], alivePlayers = [], currentTurnIndex = 0,
                     poolA = 0, poolB = 0, houseRake = 0,
                     gunChamber = Finite 0, bulletChamber = randomBulletPosition rnd,
                     consecutivePasses = 0, forcedShoot = False, consecutiveSafeShots = 0,
                     lastDeathTime = None, turnTimer = None, turnStartTime = None,
                     createdAt = now \<rparr>
        in Inr (m\<lparr>games := (games m)(cid \<mapsto> game)\<rparr>, game))"

text \<open>
  \<^verbatim>\<open>addPlayer\<close>: the new \<^verbatim>\<open>Player\<close> object is allocated at the end of the store and its
  address pushed onto both arrays.
\<close>

definition addPlayer :: "string \<Rightarrow> string \<Rightarrow> string \<Rightarrow> int \<Rightarrow> GameManager \<Rightarrow> GameManager \<times> (error + Game)" where
  "addPlayer cid uid dname entry m =
     (case games m cid of
        None \<Rightarrow> (m, Inl NotFoundError)
      | Some game \<Rightarrow>
          if state game \<noteq> waiting then (m, Inl InvalidStateError)
          else if list_ex (\<lambda>p. userId (playerStore m ! p) = uid) (players game)
            then (m, Inl DuplicateError)
          else if length (players game) \<ge> maxPlayers (config m)
            then (m, Inl (CapacityError (maxPlayers (config m))))
          else
            let (rake, toPoolA) = calculateEntryDistribution entry (rakePercent (config m));
                player = \<lparr> userId = uid, displayName = dname, isAlive = True, entryAmount = entry \<rparr>;
                p = length (playerStore m);
                game' = game\<lparr> players := players game @ [p],
                              alivePlayers := alivePlayers game @ [p],
                              poolA := poolA game + toPoolA,
                              houseRake := houseRake game + rake \<rparr>
            in (m\<lparr> games := (games m)(cid \<mapsto> game'), playerStore := playerStore m @ [player] \<rparr>,
                Inr game'))"

definition startGame :: "draw \<Rightarrow> string \<Rightarrow> GameManager \<Rightarrow> GameManager \<times> (error + Game)" where
  "startGame rnd cid m =
     (case games m cid of
        None \<Rightarrow> (m, Inl NotFoundError)
      | Some game \<Rightarrow>
          if state game = active then (m, Inl AlreadyActiveError)
          else if length (players game) < minPlayers (config m)
            then (m, Inl (InsufficientPlayersError (minPlayers (config m))))
          else
            let game' = resetGun rnd (game\<lparr> state := active, currentTurnIndex := 0,
                              consecutivePasses := 0, forcedShoot := False,
                              consecutiveSafeShots := 0, lastDeathTime := None \<rparr>)
            in (m\<lparr> games := (games m)(cid \<mapsto> game') \<rparr>, Inr game'))"

subsection \<open>Turn resolution\<close>

datatype action = shoot | pass

text \<open>
  The result messages, as the data they are formatted from: the pools, the identities
  named and the amount announced.
\<close>

datatype notice =
    Passed int int bool \<comment> \<open>pool A, pool B, whether the full-table warning is appended\<close>
  | BangWin string string int \<comment> \<open>who is out, the winner, pool A paid out\<close>
  | BangReloaded string nat \<comment> \<open>who is out, how many players remain\<close>
  | SafeShotsTerminated int "string list" \<comment> \<open>refund per player, the players refunded\<close>
  | ClickSafe bool int int \<comment> \<open>whether the bonus moved from B to A, pool A, pool B\<close>
  | DurationTerminated nat int "string list" \<comment> \<open>the limit, refund per player, the players\<close>
  | DurationLimitReached \<comment> \<open>Game terminated due to duration limit\<close>

text \<open>
  What a call of \<^verbatim>\<open>handleAction\<close> resolves to: a failure result, a success result, or
  the \<^verbatim>\<open>RangeError\<close> of a \<^verbatim>\<open>bigint\<close> division by zero.
\<close>

datatype outcome = Failure error | Success notice | Thrown

text \<open>\<^verbatim>\<open>toLowerCase\<close> on the ASCII letters (identities are hexadecimal addresses).\<close>

definition toLowerChar :: "char \<Rightarrow> char" where
  "toLowerChar c =
     (let n = (of_char c :: nat) in if 65 \<le> n \<and> n \<le> 90 then char_of (n + 32) else c)"

definition toLowerCase :: "string \<Rightarrow> string" where
  "toLowerCase s = map toLowerChar s"

definition names :: "Player list \<Rightarrow> ref list \<Rightarrow> string list" where
  "names store ps = map (\<lambda>p. userId (store ! p)) ps"

definition advanceTurn :: "Game \<Rightarrow> Game" where
  "advanceTurn game =
     (if length (alivePlayers game) = 0 then game
      else game\<lparr>currentTurnIndex := (currentTurnIndex game + 1) mod length (alivePlayers game)\<rparr>)"

text \<open>The \<^verbatim>\<open>pass\<close> branch of \<^verbatim>\<open>handleAction\<close>.\<close>

definition passBranch :: "GameConfig \<Rightarrow> Game \<Rightarrow> Game \<times> notice" where
  "passBranch cfg game =
     (let g1 = game\<lparr> poolB := poolB game + passPenalty cfg,
                     consecutivePasses := consecutivePasses game + 1 \<rparr>;
          full = (consecutivePasses g1 \<ge> length (alivePlayers g1));
          g2 = (if full then g1\<lparr>forcedShoot := True\<rparr> else g1)
      in (g2, Passed (poolA g2) (poolB g2) full))"

text \<open>
  The \<^verbatim>\<open>shoot\<close> branch. \<open>cur\<close> is the address of \<^verbatim>\<open>currentPlayer\<close>. The result is the
  store, the game, \<^verbatim>\<open>resultMessage\<close>, \<^verbatim>\<open>playerDied\<close>, and whether the branch has deleted the
  game from the registry. In the safe-shot termination the divisor is at least 1, the
  current player being in \<^verbatim>\<open>alivePlayers\<close>.
\<close>

definition shootBranch ::
  "GameConfig \<Rightarrow> int \<Rightarrow> draw \<Rightarrow> string \<Rightarrow> ref \<Rightarrow> Player list \<Rightarrow> Game
     \<Rightarrow> Player list \<times> Game \<times> notice \<times> bool \<times> bool" where
  "shootBranch cfg now rnd uid cur store game =
     (let g1 = game\<lparr> consecutivePasses := 0, forcedShoot := False \<rparr> in
      if checkChamber g1 then
        let store' = store[cur := (store ! cur)\<lparr>isAlive := False\<rparr>];
            g2 = g1\<lparr> alivePlayers := filter (\<lambda>p. isAlive (store' ! p)) (alivePlayers g1),
                     consecutiveSafeShots := 0, lastDeathTime := Some now \<rparr>;
            g3 = (if currentTurnIndex g2 \<ge> length (alivePlayers g2)
                  then g2\<lparr>currentTurnIndex := 0\<rparr> else g2);
            g4 = (resetGun rnd g3)\<lparr>forcedShoot := False\<rparr>
        in if length (alivePlayers g4) = 1 then
             let winner = alivePlayers g4 ! 0;
                 g5 = g4\<lparr>state := finished\<rparr>
             in (store', g5, BangWin uid (userId (store' ! winner)) (poolA g5), True, True)
           else (store', g4, BangReloaded uid (length (alivePlayers g4)), True, False)
      else
        let g2 = g1\<lparr>consecutiveSafeShots := consecutiveSafeShots g1 + 1\<rparr> in
        if consecutiveSafeShots g2 \<ge> maxSafeShots cfg then
          let g3 = g2\<lparr>state := finished\<rparr>;
              refundPerPlayer = bigint_div (poolA g3) (int (length (alivePlayers g3)))
          in (store, g3, SafeShotsTerminated refundPerPlayer (names store (alivePlayers g3)),
              False, True)
        else
          let bonus = (poolB g2 \<ge> bonusFromB cfg);
              g3 = (if bonus then g2\<lparr> poolA := poolA g2 + bonusFromB cfg,
                                       poolB := poolB g2 - bonusFromB cfg \<rparr> else g2);
              g4 = advanceChamber g3
          in (store, g4, ClickSafe bonus (poolA g3) (poolB g3), False, False))"

text \<open>
  The rest of \<^verbatim>\<open>handleAction\<close> after the branches: the duration limit, the turn advance,
  the callback \<^verbatim>\<open>onAction\<close> (recorded as the list of its calls) and the result. The game
  object is the one the registry holds, so its mutations are visible there as long as it
  has not been deleted. With no alive player the division of the duration limit throws
  after \<^verbatim>\<open>state\<close> has been written and before the game is deleted.
\<close>

definition finishAction ::
  "int \<Rightarrow> string \<Rightarrow> GameManager \<Rightarrow> Player list \<Rightarrow> Game \<Rightarrow> notice \<Rightarrow> bool \<Rightarrow> bool
     \<Rightarrow> GameManager \<times> outcome \<times> (Game \<times> notice) list" where
  "finishAction now cid m store game resultMessage playerDied removed =
     (if state game = active \<and>
         real_of_int (now - createdAt game) / (1000 * 60) \<ge> real (maxGameDurationMinutes (config m))
      then
        let g1 = game\<lparr>state := finished\<rparr> in
        if length (alivePlayers g1) = 0
        then (m\<lparr> games := (games m)(cid \<mapsto> g1), playerStore := store \<rparr>, Thrown, [])
        else
          let refundPerPlayer = bigint_div (poolA g1) (int (length (alivePlayers g1)))
          in (m\<lparr> games := (games m)(cid := None), playerStore := store \<rparr>,
              Success DurationLimitReached,
              [(g1, DurationTerminated (maxGameDurationMinutes (config m)) refundPerPlayer
                      (names store (alivePlayers g1)))])
      else
        let g1 = (if state game = active \<and> \<not> playerDied then advanceTurn game else game)
        in (m\<lparr> games := (if removed then (games m)(cid := None) else (games m)(cid \<mapsto> g1)),
                playerStore := store \<rparr>,
            Success resultMessage, [(g1, resultMessage)]))"

text \<open>
  \<^verbatim>\<open>handleAction(channelId, userId, action, onAction)\<close>, with the clock and the random
  draw it reads. The result is the manager, the value the promise resolves to, and the
  calls of \<^verbatim>\<open>onAction\<close> in order.
\<close>

definition handleAction ::
  "int \<Rightarrow> draw \<Rightarrow> string \<Rightarrow> string \<Rightarrow> action \<Rightarrow> GameManager
     \<Rightarrow> GameManager \<times> outcome \<times> (Game \<times> notice) list" where
  "handleAction now rnd cid uid act m =
     (case games m cid of
        None \<Rightarrow> (m, Failure NotFoundError, [])
      | Some game \<Rightarrow>
          if state game \<noteq> active then (m, Failure InvalidStateError, [])
          else if currentTurnIndex game \<ge> length (alivePlayers game)
            then (m, Failure (TurnError ''none''), [])
          else
            let cur = alivePlayers game ! currentTurnIndex game;
                currentPlayer = playerStore m ! cur
            in if toLowerCase (userId currentPlayer) \<noteq> toLowerCase uid
               then (m, Failure (TurnError (if userId currentPlayer = [] then ''none''
                                            else userId currentPlayer)), [])
               else if \<not> isAlive currentPlayer then (m, Failure EliminatedError, [])
               else if act = pass \<and> forcedShoot game then (m, Failure ForcedShootError, [])
               else
                 let g0 = game\<lparr>turnTimer := None\<rparr> in
                 (case act of
                    pass \<Rightarrow>
                      let (g1, resultMessage) = passBranch (config m) g0
                      in finishAction now cid m (playerStore m) g1 resultMessage False False
                  | shoot \<Rightarrow>
                      let (store', g1, resultMessage, playerDied, removed) =
                            shootBranch (config m) now rnd uid cur (playerStore m) g0
                      in finishAction now cid m store' g1 resultMessage playerDied removed))"

subsection \<open>Stopping a game\<close>

text \<open>The refund that the message of \<^verbatim>\<open>stopGame\<close> announces.\<close>

datatype refund =
    NoRefund
  | RefundAlive int "string list" \<comment> \<open>to each remaining player\<close>
  | RefundAll int "string list" \<comment> \<open>to each player\<close>

definition stopGame :: "string \<Rightarrow> GameManager \<Rightarrow> GameManager \<times> (error + refund \<times> Game)" where
  "stopGame cid m =
     (case games m cid of
        None \<Rightarrow> (m, Inl NotFoundError)
      | Some game \<Rightarrow>
          if state game = finished then (m, Inl AlreadyFinishedError)
          else
            let aliveCount = length (alivePlayers game);
                refundMessage =
                  (if aliveCount > 0 \<and> poolA game > 0 then
                     RefundAlive (bigint_div (poolA game) (int aliveCount))
                       (names (playerStore m) (alivePlayers game))
                   else if state game = waiting then
                     let totalRefund = poolA game + houseRake game in
                     if length (players game) > 0 \<and> totalRefund > 0 then
                       RefundAll (bigint_div totalRefund (int (length (players game))))
                         (names (playerStore m) (players game))
                     else NoRefund
                   else NoRefund);
                game' = game\<lparr>state := finished\<rparr>
            in (m\<lparr>games := (games m)(cid := None)\<rparr>, Inr (refundMessage, game')))"

definition endGame :: "string \<Rightarrow> GameManager \<Rightarrow> GameManager" where
  "endGame cid m = m\<lparr>games := (games m)(cid := None)\<rparr>"

section \<open>Invariants of the registry\<close>

text \<open>
  \<open>alive_view\<close>: \<^verbatim>\<open>alivePlayers\<close> is the list of the players of the game whose object has
  \<^verbatim>\<open>isAlive\<close> set, in the order of \<^verbatim>\<open>players\<close>. \<open>turn_in_range\<close>: the turn index of an
  active game with somebody alive points into \<^verbatim>\<open>alivePlayers\<close>. \<open>owns_players\<close>: the
  references of a game are distinct, allocated, and shared with no other game.
  \<open>reachable\<close>: the states of a manager that its methods lead to from a new manager.
\<close>

definition alive_view :: "Player list \<Rightarrow> Game \<Rightarrow> bool" where
  "alive_view store game \<longleftrightarrow>
     alivePlayers game = filter (\<lambda>p. isAlive (store ! p)) (players game)"

definition turn_in_range :: "Game \<Rightarrow> bool" where
  "turn_in_range game \<longleftrightarrow>
     (state game = active \<and> alivePlayers game \<noteq> [] \<longrightarrow>
        currentTurnIndex game < length (alivePlayers game))"

definition owns_players :: "GameManager \<Rightarrow> bool" where
  "owns_players m \<longleftrightarrow>
     (\<forall>c g. games m c = Some g \<longrightarrow>
        distinct (players g) \<and> (\<forall>p \<in> set (players g). p < length (playerStore m)))
     \<and> (\<forall>c c' g g'. c \<noteq> c' \<longrightarrow> games m c = Some g \<longrightarrow> games m c' = Some g' \<longrightarrow>
          set (players g) \<inter> set (players g') = {})"

definition manager_inv :: "GameManager \<Rightarrow> bool" where
  "manager_inv m \<longleftrightarrow>
     owns_players m \<and>
     (\<forall>c g. games m c = Some g \<longrightarrow> alive_view (playerStore m) g \<and> turn_in_range g)"

inductive reachable :: "GameManager \<Rightarrow> bool" where
  new: "reachable (newManager cfg)"
| create: "reachable m \<Longrightarrow> createGame now rnd cid sid m = Inr (m', g) \<Longrightarrow> reachable m'"
| add: "reachable m \<Longrightarrow> reachable (fst (addPlayer cid uid dname entry m))"
| start: "reachable m \<Longrightarrow> reachable (fst (startGame rnd cid m))"
| act: "reachable m \<Longrightarrow> reachable (fst (handleAction now rnd cid uid a m))"
| stop: "reachable m \<Longrightarrow> reachable (fst (stopGame cid m))"
| finish: "reachable m \<Longrightarrow> reachable (endGame cid m)"

text \<open>
  The pools. \<open>sane_config\<close>: a rake between 0 and 100 percent, and a pass penalty and a
  bonus that are not negative. \<open>paid_reachable\<close>: the states reached under such a
  configuration when every entry amount is non-negative.
\<close>

definition sane_config :: "GameConfig \<Rightarrow> bool" where
  "sane_config cfg \<longleftrightarrow>
     0 \<le> rakePercent cfg \<and> rakePercent cfg \<le> 100 \<and> 0 \<le> passPenalty cfg \<and> 0 \<le> bonusFromB cfg"

definition pools_nonneg :: "GameManager \<Rightarrow> bool" where
  "pools_nonneg m \<longleftrightarrow>
     sane_config (config m) \<and>
     (\<forall>c g. games m c = Some g \<longrightarrow> 0 \<le> poolA g \<and> 0 \<le> poolB g \<and> 0 \<le> houseRake g)"

inductive paid_reachable :: "GameManager \<Rightarrow> bool" where
  new: "sane_config cfg \<Longrightarrow> paid_reachable (newManager cfg)"
| create: "paid_reachable m \<Longrightarrow> createGame now rnd cid sid m = Inr (m', g) \<Longrightarrow> paid_reachable m'"
| add: "paid_reachable m \<Longrightarrow> 0 \<le> entry \<Longrightarrow> paid_reachable (fst (addPlayer cid uid dname entry m))"
| start: "paid_reachable m \<Longrightarrow> paid_reachable (fst (startGame rnd cid m))"
| act: "paid_reachable m \<Longrightarrow> paid_reachable (fst (handleAction now rnd cid uid a m))"
| stop: "paid_reachable m \<Longrightarrow> paid_reachable (fst (stopGame cid m))"
| finish: "paid_reachable m \<Longrightarrow> paid_reachable (endGame cid m)"

section \<open>Example states\<close>

text \<open>
  A lobby on channel \<open>ch\<close> under the default configuration, created at time 1000 with the
  draw \<open>1/2\<close>, and the players who join it.
\<close>

definition lobby0 :: GameManager where
  "lobby0 = (case createGame 1000 (1, 1) ''ch'' ''sp'' (newManager DEFAULT_CONFIG) of
               Inr (m, g) \<Rightarrow> m | Inl e \<Rightarrow> newManager DEFAULT_CONFIG)"

definition lobby1 :: GameManager where
  "lobby1 = fst (addPlayer ''ch'' ''0xa'' ''alice'' 400 lobby0)"

definition lobby2 :: GameManager where
  "lobby2 = fst (addPlayer ''ch'' ''0xb'' ''bob'' 300 lobby1)"

definition lobby3 :: GameManager where
  "lobby3 = fst (addPlayer ''ch'' ''0xc'' ''carol'' 300 lobby2)"


text \<open>The games started with the draw 0, which puts the bullet in chamber 0.\<close>

definition duel :: GameManager where
  "duel = fst (startGame (0, 0) ''ch'' lobby2)"

definition table3 :: GameManager where
  "table3 = fst (startGame (0, 0) ''ch'' lobby3)"


text \<open>The first player of the two shoots, under an identity in upper case.\<close>

definition duel_won :: GameManager where
  "duel_won = fst (handleAction 2000 (1, 1) ''ch'' ''0xA'' shoot duel)"

text \<open>
  At the table of three: the first player shoots at time 2000 and the gun is reloaded with
  the draw \<open>1/2\<close>; or the first two players pass, and the third then passes or shoots.
\<close>

definition table3_shot :: GameManager where
  "table3_shot = fst (handleAction 2000 (1, 1) ''ch'' ''0xA'' shoot table3)"

text \<open>After the first player's death the second shoots at time 3000, and survives.\<close>

definition table3_click :: GameManager where
  "table3_click = fst (handleAction 3000 (0, 0) ''ch'' ''0xb'' shoot table3_shot)"

definition table3_last :: GameManager where
  "table3_last = fst (handleAction 3000 (0, 0) ''ch'' ''0xb'' pass
                   (fst (handleAction 2000 (0, 0) ''ch'' ''0xa'' pass table3)))"

definition table3_forced :: GameManager where
  "table3_forced = fst (handleAction 4000 (0, 0) ''ch'' ''0xc'' pass table3_last)"

definition table3_wrapped :: GameManager where
  "table3_wrapped = fst (handleAction 4000 (1, 1) ''ch'' ''0xc'' shoot table3_last)"

text \<open>
  A table of three under a ceiling of one safe shot, with the entries 1000, 1 and 0, which
  put 901 in pool A, started with the draw \<open>1/2\<close>, which puts the bullet in chamber 3.
\<close>

definition ceiling_config :: GameConfig where
  "ceiling_config = DEFAULT_CONFIG\<lparr>maxSafeShots := 1\<rparr>"

definition ceiling_lobby0 :: GameManager where
  "ceiling_lobby0 = (case createGame 1000 (1, 1) ''ch'' ''sp'' (newManager ceiling_config) of
                       Inr (m, g) \<Rightarrow> m | Inl e \<Rightarrow> newManager ceiling_config)"

definition ceiling_lobby :: GameManager where
  "ceiling_lobby = fst (addPlayer ''ch'' ''0xc'' ''carol'' 0
                     (fst (addPlayer ''ch'' ''0xb'' ''bob'' 1
                       (fst (addPlayer ''ch'' ''0xa'' ''alice'' 1000 ceiling_lobby0)))))"

definition ceiling_table :: GameManager where
  "ceiling_table = fst (startGame (1, 1) ''ch'' ceiling_lobby)"

text \<open>A configuration with four chambers, and a lobby created under it with the draw \<open>7/8\<close>.\<close>

definition four_chambers :: GameConfig where
  "four_chambers = DEFAULT_CONFIG\<lparr>chambers := 4\<rparr>"

definition lobby4 :: GameManager where
  "lobby4 = (case createGame 1000 (7, 3) ''ch'' ''sp'' (newManager four_chambers) of
               Inr (m, g) \<Rightarrow> m | Inl e \<Rightarrow> newManager four_chambers)"

section \<open>Properties\<close>

subsection \<open>Arithmetic of the primitives\<close>

lemma bigint_div_nonneg: "0 \<le> a \<Longrightarrow> 0 < b \<Longrightarrow> bigint_div a b = a div b"
  by (cases "a = 0") (simp_all add: bigint_div_def)

lemma lower_ids [simp]:
  "toLowerCase ''0xa'' = ''0xa''" "toLowerCase ''0xA'' = ''0xa''"
  "toLowerCase ''0xb'' = ''0xb''" "toLowerCase ''0xc'' = ''0xc''"
  by code_simp+

subsection \<open>The rounded product\<close>

lemma rne_cases:
  "rne n s = n div 2 ^ s \<and> 2 * (n mod 2 ^ s) \<le> 2 ^ s
   \<or> rne n s = n div 2 ^ s + 1 \<and> 2 ^ s \<le> 2 * (n mod 2 ^ s)"
  by (simp add: rne_def Let_def)

lemma rne_bounds:
  "2 * (rne n s * 2 ^ s) \<le> 2 * n + 2 ^ s" "2 * n \<le> 2 * (rne n s * 2 ^ s) + 2 ^ s"
  "n div 2 ^ s \<le> rne n s"
proof -
  define q r P where "q = n div 2 ^ s" and "r = n mod 2 ^ s" and "P = (2::nat) ^ s"
  have n: "n = q * P + r" unfolding q_def r_def P_def using div_mult_mod_eq[of n "2 ^ s"] by simp
  have rP: "r < P" unfolding r_def P_def by simp
  consider "rne n s = q" "2 * r \<le> P" | "rne n s = q + 1" "P \<le> 2 * r"
    using rne_cases[of n s] unfolding q_def r_def P_def by blast
  then have "2 * (rne n s * P) \<le> 2 * n + P \<and> 2 * n \<le> 2 * (rne n s * P) + P \<and> q \<le> rne n s"
  proof cases
    case 1
    then show ?thesis using n by (simp add: algebra_simps)
  next
    case 2
    then show ?thesis using n rP by (simp add: algebra_simps)
  qed
  then show "2 * (rne n s * 2 ^ s) \<le> 2 * n + 2 ^ s" "2 * n \<le> 2 * (rne n s * 2 ^ s) + 2 ^ s"
    "n div 2 ^ s \<le> rne n s"
    unfolding q_def P_def by blast+
qed

lemma excess_bits_cases:
  assumes "n < 2 ^ 56"
  shows "excess_bits n = 0 \<and> n < 2 ^ 53 \<or> 0 < excess_bits n \<and> excess_bits n \<le> 3 \<and> 2 ^ (52 + excess_bits n) \<le> n"
  using assms by (simp add: excess_bits_def)

lemma rne_zero: "rne n 0 = n"
  by (simp add: rne_def)

text \<open>The facts about the rounded product, for a draw \<open>m / 2 ^ k\<close> below 1.\<close>

lemma times6_props:
  assumes d: "unit_draw d"
  shows times6_upper: "times6 d \<le> draw_value d * 6 + 1 / 2 ^ 51"
    and times6_lower: "draw_value d * 6 \<le> times6 d + 1 / 2 ^ 51"
    and times6_integer: "\<And>j::int. real_of_int j \<le> draw_value d * 6 \<Longrightarrow> real_of_int j \<le> times6 d"
    and times6_nonneg: "0 \<le> times6 d"
proof -
  define m k where "m = fst d" and "k = snd d"
  define n s R where "n = m * 6" and "s = excess_bits n" and "R = rne n s * 2 ^ s"
  have m53: "m < 2 ^ 53" and lt1: "real m / 2 ^ k < 1"
    using d by (simp_all add: unit_draw_def draw_value_def m_def k_def)
  have mk: "m < 2 ^ k" using lt1 by (simp add: divide_less_eq)
  have t: "times6 d = real R / 2 ^ k"
    by (simp add: times6_def Let_def R_def s_def n_def m_def k_def)
  have p: "draw_value d * 6 = real n / 2 ^ k"
    by (simp add: draw_value_def n_def m_def k_def)
  have n56: "n < 2 ^ 56" using m53 by (simp add: n_def)
  have nk: "n < 6 * 2 ^ k" using mk by (simp add: n_def)
  note rb = rne_bounds[of n s, folded R_def]
  show nonneg: "0 \<le> times6 d" unfolding t by simp
  have err: "s + 50 \<le> k \<or> R = n"
  proof (cases "s = 0")
    case True
    then show ?thesis by (simp add: R_def rne_zero)
  next
    case False
    then have s: "2 ^ (52 + s) \<le> n" using excess_bits_cases[OF n56] by (auto simp: s_def)
    have "n < 2 ^ 3 * 2 ^ k" using nk by simp
    then have "n < 2 ^ (k + 3)" by (simp only: power_add mult.commute)
    with s have "(2::nat) ^ (52 + s) < 2 ^ (k + 3)" by (rule le_less_trans)
    then have "52 + s < k + 3" by (simp only: power_strict_increasing_iff rel_simps)
    then show ?thesis by simp
  qed
  have real_le: "real a \<le> real b" if "a \<le> b" for a b :: nat
    using that by simp
  have up: "2 * real R \<le> 2 * real n + 2 ^ s"
    using real_le[OF rb(1)] by simp
  have lo: "2 * real n \<le> 2 * real R + 2 ^ s"
    using real_le[OF rb(2)] by simp
  have pk: "(0::real) < 2 ^ k" by simp
  have bound: "real R \<le> real n + 2 ^ k / 2 ^ 51 \<and> real n \<le> real R + 2 ^ k / 2 ^ 51"
  proof (rule disjE[OF err])
    assume "s + 50 \<le> k"
    then have "(2::real) ^ (s + 50) \<le> 2 ^ k" by (rule power_increasing) simp
    then have "(2::real) ^ s * 2 ^ 50 \<le> 2 ^ k" by (simp only: power_add)
    then have "(2::real) ^ s \<le> 2 * (2 ^ k / 2 ^ 51)" by simp
    then show ?thesis using up lo by linarith
  next
    assume "R = n"
    then show ?thesis by simp
  qed
  have "real R / 2 ^ k \<le> (real n + 2 ^ k / 2 ^ 51) / 2 ^ k"
    using bound by (simp add: divide_right_mono)
  then show "times6 d \<le> draw_value d * 6 + 1 / 2 ^ 51"
    unfolding t p by (simp add: add_divide_distrib)
  have "real n / 2 ^ k \<le> (real R + 2 ^ k / 2 ^ 51) / 2 ^ k"
    using bound by (simp add: divide_right_mono)
  then show "draw_value d * 6 \<le> times6 d + 1 / 2 ^ 51"
    unfolding t p by (simp add: add_divide_distrib)
  show "real_of_int j \<le> times6 d" if j: "real_of_int j \<le> draw_value d * 6" for j :: int
  proof (cases "j \<le> 0")
    case True
    then have "real_of_int j \<le> 0" by simp
    with nonneg show ?thesis by linarith
  next
    case False
    define i where "i = nat j"
    have ji: "j = int i" using False by (simp add: i_def)
    have "real i * 2 ^ k \<le> real n" using j unfolding p ji by (simp add: field_simps)
    then have "real (i * 2 ^ k) \<le> real n" by simp
    then have ink: "i * 2 ^ k \<le> n" by (simp only: of_nat_le_iff)
    have "i * 2 ^ k \<le> R"
    proof (rule disjE[OF err])
      assume "R = n" with ink show ?thesis by simp
    next
      assume "s + 50 \<le> k"
      then have "s \<le> k" by simp
      then have k: "(2::nat) ^ k = 2 ^ (k - s) * 2 ^ s" by (simp flip: power_add)
      have "i * 2 ^ (k - s) * 2 ^ s \<le> n" using ink k by (simp add: mult.assoc)
      then have "i * 2 ^ (k - s) \<le> n div 2 ^ s"
        by (simp add: less_eq_div_iff_mult_less_eq)
      also have "\<dots> \<le> rne n s" by (rule rb(3))
      finally have "i * 2 ^ (k - s) * 2 ^ s \<le> rne n s * 2 ^ s" by simp
      then show ?thesis using k by (simp add: R_def mult.assoc)
    qed
    then have "real (i * 2 ^ k) \<le> real R" by (rule real_le)
    then have "real i * 2 ^ k \<le> real R" by simp
    then show ?thesis unfolding t ji by (simp add: field_simps)
  qed
qed

lemma unit_draw_below:
  assumes "unit_draw d"
  shows "draw_value d \<le> 1 - 1 / 2 ^ 53"
proof -
  define m k where "m = fst d" and "k = snd d"
  have m53: "m < 2 ^ 53" and lt1: "real m / 2 ^ k < 1"
    using assms by (simp_all add: unit_draw_def draw_value_def m_def k_def)
  have v: "draw_value d = real m / 2 ^ k" by (simp add: draw_value_def m_def k_def)
  show ?thesis
  proof (cases "k \<le> 53")
    case True
    have "real m < 2 ^ k" using lt1 by (simp add: divide_less_eq)
    then have "m < 2 ^ k" by simp
    then have "m + 1 \<le> 2 ^ k" by simp
    then have "real (m + 1) \<le> real (2 ^ k)" by (simp only: of_nat_le_iff)
    then have "real m + 1 \<le> 2 ^ k" by simp
    then have "real m / 2 ^ k \<le> 1 - 1 / 2 ^ k" by (simp add: field_simps)
    moreover have "(2::real) ^ k \<le> 2 ^ 53"
      using True by (rule power_increasing) simp
    then have "(1::real) / 2 ^ 53 \<le> 1 / 2 ^ k"
      by (intro frac_le) simp_all
    ultimately show ?thesis unfolding v by linarith
  next
    case False
    then have "54 \<le> k" by simp
    then have "(2::real) ^ 54 \<le> 2 ^ k" by (rule power_increasing) simp
    moreover have "real m \<le> 2 ^ 53" using m53 by simp
    ultimately have "real m * 2 \<le> 2 ^ k" by simp
    then have "real m / 2 ^ k \<le> 1 / 2" by (simp add: field_simps)
    moreover have "(1::real) / 2 \<le> 1 - 1 / 2 ^ 53" by simp
    ultimately show ?thesis unfolding v by linarith
  qed
qed

lemma times6_below_6:
  assumes "unit_draw d"
  shows "times6 d < 6"
  using times6_upper[OF assms] unit_draw_below[OF assms] by simp

text \<open>
  The position is \<open>j\<close> for every draw from \<open>j/6\<close> up to \<open>(j+1)/6 - 1/2 ^ 53\<close>, and only for
  draws from \<open>j/6 - 1/2 ^ 53\<close> up to \<open>(j+1)/6\<close>.
\<close>

lemma bullet_interval:
  assumes d: "unit_draw d"
    and lo: "real_of_int j / 6 \<le> draw_value d"
    and hi: "draw_value d < (real_of_int j + 1) / 6 - 1 / 2 ^ 53"
  shows "\<lfloor>times6 d\<rfloor> = j"
proof -
  have "real_of_int j \<le> draw_value d * 6" using lo by simp
  then have 1: "real_of_int j \<le> times6 d" by (rule times6_integer[OF d])
  have "draw_value d * 6 < real_of_int j + 1 - 6 / 2 ^ 53" using hi by (simp add: field_simps)
  moreover have "(1::real) / 2 ^ 51 \<le> 6 / 2 ^ 53" by simp
  ultimately have 2: "times6 d < real_of_int j + 1" using times6_upper[OF d] by linarith
  from 1 2 show ?thesis by (simp add: floor_eq_iff)
qed

lemma bullet_interval_only:
  assumes d: "unit_draw d"
    and k: "\<lfloor>times6 d\<rfloor> = j"
  shows "real_of_int j / 6 - 1 / 2 ^ 53 \<le> draw_value d"
    and "draw_value d < (real_of_int j + 1) / 6"
proof -
  have 1: "real_of_int j \<le> times6 d" and 2: "times6 d < real_of_int j + 1"
    using k by (simp_all add: floor_eq_iff)
  from 1 times6_upper[OF d] have "real_of_int j \<le> draw_value d * 6 + 1 / 2 ^ 51" by linarith
  then have "real_of_int j / 6 \<le> draw_value d + (1 / 2 ^ 51) / 6" by (simp add: field_simps)
  moreover have "(1::real) / 2 ^ 51 / 6 \<le> 1 / 2 ^ 53" by simp
  ultimately show "real_of_int j / 6 - 1 / 2 ^ 53 \<le> draw_value d" by linarith
  show "draw_value d < (real_of_int j + 1) / 6"
  proof (rule ccontr)
    assume "\<not> draw_value d < (real_of_int j + 1) / 6"
    then have "real_of_int (j + 1) \<le> draw_value d * 6" by (simp add: field_simps)
    then have "real_of_int (j + 1) \<le> times6 d" by (rule times6_integer[OF d])
    with 2 show False by simp
  qed
qed

text \<open>The draws of the example states, and a draw below \<open>5/6\<close> whose product rounds to 5.\<close>

lemma draw_positions:
  "randomBulletPosition (0, 0) = Finite 0"
  "randomBulletPosition (1, 1) = Finite 3"
  "randomBulletPosition (Suc 0, Suc 0) = Finite 3"
  "randomBulletPosition (7, 3) = Finite 5"
  by (simp_all add: randomBulletPosition_def times6_def rne_def excess_bits_def Let_def)

lemma product_rounds_to_5:
  "unit_draw (7505999378950826, 53)
   \<and> draw_value (7505999378950826, 53) < 5 / 6
   \<and> times6 (7505999378950826, 53) = 5
   \<and> randomBulletPosition (7505999378950826, 53) = Finite 5"
  by (simp add: unit_draw_def draw_value_def randomBulletPosition_def times6_def rne_def
        excess_bits_def Let_def)

subsection \<open>The example states, evaluated\<close>

lemmas run_defs = handleAction_def passBranch_def shootBranch_def finishAction_def advanceTurn_def
  checkChamber_def resetGun_def draw_positions advanceChamber_def names_def
  bigint_div_def DEFAULT_CONFIG_def Let_def

lemma lobby0_eq:
  "lobby0 = \<lparr> games = (\<lambda>_. None)(''ch'' \<mapsto>
      \<lparr> gameId = 1000, channelId = ''ch'', spaceId = ''sp'', state = waiting,
        players = [], alivePlayers = [], currentTurnIndex = 0,
        poolA = 0, poolB = 0, houseRake = 0,
        gunChamber = Finite 0, bulletChamber = Finite 3,
        consecutivePasses = 0, forcedShoot = False, consecutiveSafeShots = 0,
        lastDeathTime = None, turnTimer = None, turnStartTime = None,
        createdAt = 1000 \<rparr>),
     config = DEFAULT_CONFIG, playerStore = [] \<rparr>"
  by (simp add: lobby0_def createGame_def newManager_def draw_positions Let_def)

lemma lobby1_eq:
  "lobby1 = \<lparr> games = (\<lambda>_. None)(''ch'' \<mapsto>
      \<lparr> gameId = 1000, channelId = ''ch'', spaceId = ''sp'', state = waiting,
        players = [0], alivePlayers = [0], currentTurnIndex = 0,
        poolA = 360, poolB = 0, houseRake = 40,
        gunChamber = Finite 0, bulletChamber = Finite 3,
        consecutivePasses = 0, forcedShoot = False, consecutiveSafeShots = 0,
        lastDeathTime = None, turnTimer = None, turnStartTime = None,
        createdAt = 1000 \<rparr>),
     config = DEFAULT_CONFIG,
     playerStore =
       [\<lparr> userId = ''0xa'', displayName = ''alice'', isAlive = True, entryAmount = 400 \<rparr>] \<rparr>"
  by (simp add: lobby1_def lobby0_eq addPlayer_def DEFAULT_CONFIG_def
        calculateEntryDistribution_def bigint_div_def Let_def)

lemma lobby2_eq:
  "lobby2 = \<lparr> games = (\<lambda>_. None)(''ch'' \<mapsto>
      \<lparr> gameId = 1000, channelId = ''ch'', spaceId = ''sp'', state = waiting,
        players = [0, 1], alivePlayers = [0, 1], currentTurnIndex = 0,
        poolA = 630, poolB = 0, houseRake = 70,
        gunChamber = Finite 0, bulletChamber = Finite 3,
        consecutivePasses = 0, forcedShoot = False, consecutiveSafeShots = 0,
        lastDeathTime = None, turnTimer = None, turnStartTime = None,
        createdAt = 1000 \<rparr>),
     config = DEFAULT_CONFIG,
     playerStore =
       [\<lparr> userId = ''0xa'', displayName = ''alice'', isAlive = True, entryAmount = 400 \<rparr>,
        \<lparr> userId = ''0xb'', displayName = ''bob'', isAlive = True, entryAmount = 300 \<rparr>] \<rparr>"
  by (simp add: lobby2_def lobby1_eq addPlayer_def DEFAULT_CONFIG_def
        calculateEntryDistribution_def bigint_div_def Let_def)

lemma lobby3_eq:
  "lobby3 = \<lparr> games = (\<lambda>_. None)(''ch'' \<mapsto>
      \<lparr> gameId = 1000, channelId = ''ch'', spaceId = ''sp'', state = waiting,
        players = [0, 1, 2], alivePlayers = [0, 1, 2], currentTurnIndex = 0,
        poolA = 900, poolB = 0, houseRake = 100,
        gunChamber = Finite 0, bulletChamber = Finite 3,
        consecutivePasses = 0, forcedShoot = False, consecutiveSafeShots = 0,
        lastDeathTime = None, turnTimer = None, turnStartTime = None,
        createdAt = 1000 \<rparr>),
     config = DEFAULT_CONFIG,
     playerStore =
       [\<lparr> userId = ''0xa'', displayName = ''alice'', isAlive = True, entryAmount = 400 \<rparr>,
        \<lparr> userId = ''0xb'', displayName = ''bob'', isAlive = True, entryAmount = 300 \<rparr>,
        \<lparr> userId = ''0xc'', displayName = ''carol'', isAlive = True, entryAmount = 300 \<rparr>] \<rparr>"
  by (simp add: lobby3_def lobby2_eq addPlayer_def DEFAULT_CONFIG_def
        calculateEntryDistribution_def bigint_div_def Let_def numeral_2_eq_2)


lemma duel_eq:
  "duel = \<lparr> games = (\<lambda>_. None)(''ch'' \<mapsto>
      \<lparr> gameId = 1000, channelId = ''ch'', spaceId = ''sp'', state = active,
        players = [0, 1], alivePlayers = [0, 1], currentTurnIndex = 0,
        poolA = 630, poolB = 0, houseRake = 70,
        gunChamber = Finite 0, bulletChamber = Finite 0,
        consecutivePasses = 0, forcedShoot = False, consecutiveSafeShots = 0,
        lastDeathTime = None, turnTimer = None, turnStartTime = None,
        createdAt = 1000 \<rparr>),
     config = DEFAULT_CONFIG,
     playerStore =
       [\<lparr> userId = ''0xa'', displayName = ''alice'', isAlive = True, entryAmount = 400 \<rparr>,
        \<lparr> userId = ''0xb'', displayName = ''bob'', isAlive = True, entryAmount = 300 \<rparr>] \<rparr>"
  by (simp add: duel_def lobby2_eq startGame_def DEFAULT_CONFIG_def resetGun_def
        draw_positions Let_def)

lemma table3_eq:
  "table3 = \<lparr> games = (\<lambda>_. None)(''ch'' \<mapsto>
      \<lparr> gameId = 1000, channelId = ''ch'', spaceId = ''sp'', state = active,
        players = [0, 1, 2], alivePlayers = [0, 1, 2], currentTurnIndex = 0,
        poolA = 900, poolB = 0, houseRake = 100,
        gunChamber = Finite 0, bulletChamber = Finite 0,
        consecutivePasses = 0, forcedShoot = False, consecutiveSafeShots = 0,
        lastDeathTime = None, turnTimer = None, turnStartTime = None,
        createdAt = 1000 \<rparr>),
     config = DEFAULT_CONFIG,
     playerStore =
       [\<lparr> userId = ''0xa'', displayName = ''alice'', isAlive = True, entryAmount = 400 \<rparr>,
        \<lparr> userId = ''0xb'', displayName = ''bob'', isAlive = True, entryAmount = 300 \<rparr>,
        \<lparr> userId = ''0xc'', displayName = ''carol'', isAlive = True, entryAmount = 300 \<rparr>] \<rparr>"
  by (simp add: table3_def lobby3_eq startGame_def DEFAULT_CONFIG_def resetGun_def
        draw_positions Let_def)


lemma duel_won_eq:
  "duel_won = \<lparr> games = (\<lambda>_. None)(''ch'' := None),
     config = DEFAULT_CONFIG,
     playerStore =
       [\<lparr> userId = ''0xa'', displayName = ''alice'', isAlive = False, entryAmount = 400 \<rparr>,
        \<lparr> userId = ''0xb'', displayName = ''bob'', isAlive = True, entryAmount = 300 \<rparr>] \<rparr>"
  by (simp add: duel_won_def duel_eq handleAction_def passBranch_def shootBranch_def finishAction_def advanceTurn_def checkChamber_def resetGun_def draw_positions DEFAULT_CONFIG_def Let_def)

lemma table3_shot_eq:
  "table3_shot = \<lparr> games = (\<lambda>_. None)(''ch'' \<mapsto>
      \<lparr> gameId = 1000, channelId = ''ch'', spaceId = ''sp'', state = active,
        players = [0, 1, 2], alivePlayers = [1, 2], currentTurnIndex = 0,
        poolA = 900, poolB = 0, houseRake = 100,
        gunChamber = Finite 0, bulletChamber = Finite 3,
        consecutivePasses = 0, forcedShoot = False, consecutiveSafeShots = 0,
        lastDeathTime = Some 2000, turnTimer = None, turnStartTime = None,
        createdAt = 1000 \<rparr>),
     config = DEFAULT_CONFIG,
     playerStore =
       [\<lparr> userId = ''0xa'', displayName = ''alice'', isAlive = False, entryAmount = 400 \<rparr>,
        \<lparr> userId = ''0xb'', displayName = ''bob'', isAlive = True, entryAmount = 300 \<rparr>,
        \<lparr> userId = ''0xc'', displayName = ''carol'', isAlive = True, entryAmount = 300 \<rparr>] \<rparr>"
  by (simp add: table3_shot_def table3_eq handleAction_def shootBranch_def finishAction_def
        checkChamber_def resetGun_def draw_positions DEFAULT_CONFIG_def Let_def)

lemma table3_last_eq:
  "table3_last = \<lparr> games = (\<lambda>_. None)(''ch'' \<mapsto>
      \<lparr> gameId = 1000, channelId = ''ch'', spaceId = ''sp'', state = active,
        players = [0, 1, 2], alivePlayers = [0, 1, 2], currentTurnIndex = 2,
        poolA = 900, poolB = 300000000000000, houseRake = 100,
        gunChamber = Finite 0, bulletChamber = Finite 0,
        consecutivePasses = 2, forcedShoot = False, consecutiveSafeShots = 0,
        lastDeathTime = None, turnTimer = None, turnStartTime = None,
        createdAt = 1000 \<rparr>),
     config = DEFAULT_CONFIG,
     playerStore =
       [\<lparr> userId = ''0xa'', displayName = ''alice'', isAlive = True, entryAmount = 400 \<rparr>,
        \<lparr> userId = ''0xb'', displayName = ''bob'', isAlive = True, entryAmount = 300 \<rparr>,
        \<lparr> userId = ''0xc'', displayName = ''carol'', isAlive = True, entryAmount = 300 \<rparr>] \<rparr>"
  by (simp add: table3_last_def table3_eq handleAction_def passBranch_def shootBranch_def finishAction_def advanceTurn_def checkChamber_def resetGun_def draw_positions DEFAULT_CONFIG_def Let_def
        numeral_2_eq_2)

lemma table3_forced_eq:
  "table3_forced = \<lparr> games = (\<lambda>_. None)(''ch'' \<mapsto>
      \<lparr> gameId = 1000, channelId = ''ch'', spaceId = ''sp'', state = active,
        players = [0, 1, 2], alivePlayers = [0, 1, 2], currentTurnIndex = 0,
        poolA = 900, poolB = 450000000000000, houseRake = 100,
        gunChamber = Finite 0, bulletChamber = Finite 0,
        consecutivePasses = 3, forcedShoot = True, consecutiveSafeShots = 0,
        lastDeathTime = None, turnTimer = None, turnStartTime = None,
        createdAt = 1000 \<rparr>),
     config = DEFAULT_CONFIG,
     playerStore =
       [\<lparr> userId = ''0xa'', displayName = ''alice'', isAlive = True, entryAmount = 400 \<rparr>,
        \<lparr> userId = ''0xb'', displayName = ''bob'', isAlive = True, entryAmount = 300 \<rparr>,
        \<lparr> userId = ''0xc'', displayName = ''carol'', isAlive = True, entryAmount = 300 \<rparr>] \<rparr>"
  by (simp add: table3_forced_def table3_last_eq handleAction_def passBranch_def shootBranch_def finishAction_def advanceTurn_def checkChamber_def resetGun_def draw_positions DEFAULT_CONFIG_def Let_def
        numeral_3_eq_3)

lemma table3_wrapped_eq:
  "table3_wrapped = \<lparr> games = (\<lambda>_. None)(''ch'' \<mapsto>
      \<lparr> gameId = 1000, channelId = ''ch'', spaceId = ''sp'', state = active,
        players = [0, 1, 2], alivePlayers = [0, 1], currentTurnIndex = 0,
        poolA = 900, poolB = 300000000000000, houseRake = 100,
        gunChamber = Finite 0, bulletChamber = Finite 3,
        consecutivePasses = 0, forcedShoot = False, consecutiveSafeShots = 0,
        lastDeathTime = Some 4000, turnTimer = None, turnStartTime = None,
        createdAt = 1000 \<rparr>),
     config = DEFAULT_CONFIG,
     playerStore =
       [\<lparr> userId = ''0xa'', displayName = ''alice'', isAlive = True, entryAmount = 400 \<rparr>,
        \<lparr> userId = ''0xb'', displayName = ''bob'', isAlive = True, entryAmount = 300 \<rparr>,
        \<lparr> userId = ''0xc'', displayName = ''carol'', isAlive = False, entryAmount = 300 \<rparr>] \<rparr>"
  by (simp add: table3_wrapped_def table3_last_eq handleAction_def passBranch_def shootBranch_def finishAction_def advanceTurn_def checkChamber_def resetGun_def draw_positions DEFAULT_CONFIG_def Let_def)

lemma ceiling_table_eq:
  "ceiling_table = \<lparr> games = (\<lambda>_. None)(''ch'' \<mapsto>
      \<lparr> gameId = 1000, channelId = ''ch'', spaceId = ''sp'', state = active,
        players = [0, 1, 2], alivePlayers = [0, 1, 2], currentTurnIndex = 0,
        poolA = 901, poolB = 0, houseRake = 100,
        gunChamber = Finite 0, bulletChamber = Finite 3,
        consecutivePasses = 0, forcedShoot = False, consecutiveSafeShots = 0,
        lastDeathTime = None, turnTimer = None, turnStartTime = None,
        createdAt = 1000 \<rparr>),
     config = ceiling_config,
     playerStore =
       [\<lparr> userId = ''0xa'', displayName = ''alice'', isAlive = True, entryAmount = 1000 \<rparr>,
        \<lparr> userId = ''0xb'', displayName = ''bob'', isAlive = True, entryAmount = 1 \<rparr>,
        \<lparr> userId = ''0xc'', displayName = ''carol'', isAlive = True, entryAmount = 0 \<rparr>] \<rparr>"
  by (simp add: ceiling_table_def ceiling_lobby_def ceiling_lobby0_def ceiling_config_def
        createGame_def newManager_def addPlayer_def startGame_def resetGun_def
        draw_positions calculateEntryDistribution_def bigint_div_def
        DEFAULT_CONFIG_def Let_def numeral_2_eq_2)

lemma lobby4_eq:
  "lobby4 = \<lparr> games = (\<lambda>_. None)(''ch'' \<mapsto>
      \<lparr> gameId = 1000, channelId = ''ch'', spaceId = ''sp'', state = waiting,
        players = [], alivePlayers = [], currentTurnIndex = 0,
        poolA = 0, poolB = 0, houseRake = 0,
        gunChamber = Finite 0, bulletChamber = Finite 5,
        consecutivePasses = 0, forcedShoot = False, consecutiveSafeShots = 0,
        lastDeathTime = None, turnTimer = None, turnStartTime = None,
        createdAt = 1000 \<rparr>),
     config = four_chambers, playerStore = [] \<rparr>"
  by (simp add: lobby4_def createGame_def newManager_def draw_positions Let_def)

lemma reachable_lobby0: "reachable lobby0"
proof -
  have "\<exists>g. createGame 1000 (1, 1) ''ch'' ''sp'' (newManager DEFAULT_CONFIG) = Inr (lobby0, g)"
    by (simp add: lobby0_def createGame_def newManager_def Let_def)
  then show ?thesis using reachable.new reachable.create by blast
qed

lemma reachable_lobby1: "reachable lobby1"
  unfolding lobby1_def by (intro reachable.add reachable_lobby0)

lemma reachable_lobby2: "reachable lobby2"
  unfolding lobby2_def by (intro reachable.add reachable_lobby1)

lemma reachable_lobby3: "reachable lobby3"
  unfolding lobby3_def by (intro reachable.add reachable_lobby2)

lemma reachable_duel: "reachable duel"
  unfolding duel_def by (intro reachable.start reachable_lobby2)

lemma reachable_table3: "reachable table3"
  unfolding table3_def by (intro reachable.start reachable_lobby3)

lemma reachable_table3_shot: "reachable table3_shot"
  unfolding table3_shot_def by (intro reachable.act reachable_table3)

lemma reachable_table3_last: "reachable table3_last"
  unfolding table3_last_def by (intro reachable.act reachable_table3)

subsection \<open>The invariant is kept by every method\<close>

lemma filter_cong_set: "(\<And>x. x \<in> set xs \<Longrightarrow> P x = Q x) \<Longrightarrow> filter P xs = filter Q xs"
  by (rule filter_cong) auto

text \<open>Replacing or removing one game, with a store that is unchanged at the other games' players.\<close>

lemma manager_inv_put:
  assumes inv: "manager_inv m"
    and dist: "distinct (players g')"
    and bound: "\<And>p. p \<in> set (players g') \<Longrightarrow> p < length store'"
    and fresh: "\<And>c h p. games m c = Some h \<Longrightarrow> c \<noteq> cid \<Longrightarrow> p \<in> set (players h)
                  \<Longrightarrow> p \<notin> set (players g') \<and> store' ! p = playerStore m ! p"
    and len: "length (playerStore m) \<le> length store'"
    and av: "alive_view store' g'" and tr: "turn_in_range g'"
  shows "manager_inv (m\<lparr> games := (games m)(cid \<mapsto> g'), playerStore := store' \<rparr>)"
proof -
  have own: "owns_players m"
    and ok: "\<And>c h. games m c = Some h \<Longrightarrow> alive_view (playerStore m) h \<and> turn_in_range h"
    using inv by (auto simp: manager_inv_def)
  have other: "alive_view store' h" if "games m c = Some h" "c \<noteq> cid" for c h
  proof -
    have "filter (\<lambda>p. isAlive (store' ! p)) (players h)
            = filter (\<lambda>p. isAlive (playerStore m ! p)) (players h)"
      by (intro filter_cong_set) (simp add: fresh[OF that])
    with ok[OF that(1)] show ?thesis by (simp add: alive_view_def)
  qed
  have o1: "distinct (players h) \<and> (\<forall>p \<in> set (players h). p < length store')"
    if "((games m)(cid \<mapsto> g')) c = Some h" for c h
  proof (cases "c = cid")
    case True
    with that dist bound show ?thesis by auto
  next
    case False
    with that own len show ?thesis unfolding owns_players_def by fastforce
  qed
  have o2: "set (players h) \<inter> set (players h') = {}"
    if "c \<noteq> c'" "((games m)(cid \<mapsto> g')) c = Some h" "((games m)(cid \<mapsto> g')) c' = Some h'"
    for c c' h h'
  proof -
    note ne = that(1)
    consider "c = cid" "c' \<noteq> cid" | "c \<noteq> cid" "c' = cid" | "c \<noteq> cid" "c' \<noteq> cid"
      using ne by blast
    then show ?thesis
    proof cases
      case 1
      then have "h = g'" "games m c' = Some h'" using that by auto
      with fresh[of c' h'] 1 show ?thesis by auto
    next
      case 2
      then have "h' = g'" "games m c = Some h" using that by auto
      with fresh[of c h] 2 show ?thesis by auto
    next
      case 3
      then have "games m c = Some h" "games m c' = Some h'" using that by auto
      with own that(1) show ?thesis unfolding owns_players_def by blast
    qed
  qed
  have "owns_players (m\<lparr> games := (games m)(cid \<mapsto> g'), playerStore := store' \<rparr>)"
    unfolding owns_players_def using o1 o2 by simp
  moreover have "alive_view store' h \<and> turn_in_range h"
    if "((games m)(cid \<mapsto> g')) c = Some h" for c h
    using that av tr other ok by (cases "c = cid") auto
  ultimately show ?thesis by (simp add: manager_inv_def)
qed

lemma manager_inv_drop:
  assumes inv: "manager_inv m"
    and len: "length (playerStore m) \<le> length store'"
    and same: "\<And>c h p. games m c = Some h \<Longrightarrow> c \<noteq> cid \<Longrightarrow> p \<in> set (players h)
                 \<Longrightarrow> store' ! p = playerStore m ! p"
  shows "manager_inv (m\<lparr> games := (games m)(cid := None), playerStore := store' \<rparr>)"
proof -
  have own: "owns_players m"
    and ok: "\<And>c h. games m c = Some h \<Longrightarrow> alive_view (playerStore m) h \<and> turn_in_range h"
    using inv by (auto simp: manager_inv_def)
  have other: "alive_view store' h" if "games m c = Some h" "c \<noteq> cid" for c h
  proof -
    have "filter (\<lambda>p. isAlive (store' ! p)) (players h)
            = filter (\<lambda>p. isAlive (playerStore m ! p)) (players h)"
      by (intro filter_cong_set) (simp add: same[OF that])
    with ok[OF that(1)] show ?thesis by (simp add: alive_view_def)
  qed
  have "p < length store'" if "games m c = Some h" "p \<in> set (players h)" for c h p
  proof -
    have "p < length (playerStore m)" using own that unfolding owns_players_def by blast
    with len show ?thesis by simp
  qed
  then have "owns_players (m\<lparr> games := (games m)(cid := None), playerStore := store' \<rparr>)"
    using own unfolding owns_players_def
    by (auto split: if_splits)
  moreover have "alive_view store' h \<and> turn_in_range h"
    if "((games m)(cid := None)) c = Some h" for c h
    using that other ok by (cases "c = cid") auto
  ultimately show ?thesis by (simp add: manager_inv_def)
qed

text \<open>The players of the other games are not those of the game at \<open>cid\<close>.\<close>

lemma other_players:
  assumes "manager_inv m" "games m cid = Some g" "games m c = Some h" "c \<noteq> cid" "p \<in> set (players h)"
  shows "p \<notin> set (players g)" and "p < length (playerStore m)"
  using assms unfolding manager_inv_def owns_players_def by blast+

lemma own_players:
  assumes "manager_inv m" "games m cid = Some g"
  shows "distinct (players g)" and "\<And>p. p \<in> set (players g) \<Longrightarrow> p < length (playerStore m)"
    and "alive_view (playerStore m) g" and "turn_in_range g"
  using assms unfolding manager_inv_def owns_players_def by blast+

lemma manager_inv_new: "manager_inv (newManager cfg)"
  by (simp add: manager_inv_def owns_players_def newManager_def)

lemma manager_inv_createGame:
  assumes "manager_inv m" "createGame now rnd cid sid m = Inr (m', g)"
  shows "manager_inv m'"
proof -
  from assms(2) have m': "m' = m\<lparr> games := (games m)(cid \<mapsto> g), playerStore := playerStore m \<rparr>"
    and g: "players g = []" "alivePlayers g = []"
    by (auto simp: createGame_def Let_def split: if_splits)
  show ?thesis unfolding m'
    by (rule manager_inv_put[OF assms(1)]) (simp_all add: g alive_view_def turn_in_range_def)
qed

lemma manager_inv_addPlayer:
  assumes inv: "manager_inv m"
  shows "manager_inv (fst (addPlayer cid uid dname entry m))"
proof (cases "games m cid")
  case None
  with inv show ?thesis by (simp add: addPlayer_def)
next
  case (Some g)
  note own = own_players[OF inv Some]
  let ?n = "length (playerStore m)"
  let ?pl = "\<lparr> userId = uid, displayName = dname, isAlive = True, entryAmount = entry \<rparr>"
  let ?store = "playerStore m @ [?pl]"
  have nn: "?n \<notin> set (players g)" using own(2) by blast
  have *: "manager_inv (m\<lparr> games := (games m)(cid \<mapsto> g'), playerStore := ?store \<rparr>)"
    if g': "players g' = players g @ [?n]" "alivePlayers g' = alivePlayers g @ [?n]" "state g' = waiting"
    for g'
  proof (rule manager_inv_put[OF inv])
    show "distinct (players g')" using own(1) nn g' by simp
    show "p < length ?store" if "p \<in> set (players g')" for p
      using that own(2)[of p] g' by auto
    show "p \<notin> set (players g') \<and> ?store ! p = playerStore m ! p"
      if "games m c = Some h" "c \<noteq> cid" "p \<in> set (players h)" for c h p
      using other_players[OF inv Some that] g' by (auto simp: nth_append)
    show "length (playerStore m) \<le> length ?store" by simp
    have "filter (\<lambda>p. isAlive (?store ! p)) (players g) = filter (\<lambda>p. isAlive (playerStore m ! p)) (players g)"
      by (intro filter_cong_set) (auto simp: nth_append dest: own(2))
    then show "alive_view ?store g'"
      using own(3) g' by (simp add: alive_view_def)
    show "turn_in_range g'" using g' by (simp add: turn_in_range_def)
  qed
  show ?thesis
    using Some inv
    by (auto simp: addPlayer_def Let_def split: prod.splits intro!: *)
qed

lemma manager_inv_startGame:
  assumes inv: "manager_inv m"
  shows "manager_inv (fst (startGame rnd cid m))"
proof (cases "games m cid")
  case None
  with inv show ?thesis by (simp add: startGame_def)
next
  case (Some g)
  note own = own_players[OF inv Some]
  have *: "manager_inv (m\<lparr> games := (games m)(cid \<mapsto> g'), playerStore := playerStore m \<rparr>)"
    if g': "players g' = players g" "alivePlayers g' = alivePlayers g" "currentTurnIndex g' = 0"
    for g'
  proof (rule manager_inv_put[OF inv])
    show "p \<notin> set (players g') \<and> playerStore m ! p = playerStore m ! p"
      if "games m c = Some h" "c \<noteq> cid" "p \<in> set (players h)" for c h p
      using other_players[OF inv Some that] g' by auto
  qed (use own g' in \<open>auto simp: alive_view_def turn_in_range_def\<close>)
  have "manager_inv (m\<lparr> games := (games m)(cid \<mapsto> g') \<rparr>)"
    if g': "players g' = players g" "alivePlayers g' = alivePlayers g" "currentTurnIndex g' = 0"
    for g'
    using *[OF that] by simp
  then show ?thesis
    using Some inv
    by (auto simp: startGame_def Let_def resetGun_def)
qed

lemma manager_inv_stopGame:
  assumes inv: "manager_inv m"
  shows "manager_inv (fst (stopGame cid m))"
proof -
  have "manager_inv (m\<lparr> games := (games m)(cid := None), playerStore := playerStore m \<rparr>)"
    by (rule manager_inv_drop[OF inv]) simp_all
  then show ?thesis using inv
    by (auto simp: stopGame_def Let_def split: option.splits)
qed

lemma manager_inv_endGame:
  assumes inv: "manager_inv m"
  shows "manager_inv (endGame cid m)"
proof -
  have "manager_inv (m\<lparr> games := (games m)(cid := None), playerStore := playerStore m \<rparr>)"
    by (rule manager_inv_drop[OF inv]) simp_all
  then show ?thesis by (simp add: endGame_def)
qed

lemma passBranch_fields:
  assumes "passBranch cfg g = (g', n)"
  shows "players g' = players g" "alivePlayers g' = alivePlayers g" "state g' = state g"
    "currentTurnIndex g' = currentTurnIndex g"
  using assms by (auto simp: passBranch_def Let_def split: if_splits)

lemma advanceTurn_fields:
  "players (advanceTurn g) = players g" "alivePlayers (advanceTurn g) = alivePlayers g"
  "state (advanceTurn g) = state g" "turn_in_range (advanceTurn g)"
  by (auto simp: advanceTurn_def turn_in_range_def)

lemma filter_after_death:
  assumes "cur < length store"
  shows "filter (\<lambda>p. isAlive (store[cur := (store ! cur)\<lparr>isAlive := False\<rparr>] ! p))
           (filter (\<lambda>p. isAlive (store ! p)) ps)
         = filter (\<lambda>p. isAlive (store[cur := (store ! cur)\<lparr>isAlive := False\<rparr>] ! p)) ps"
proof -
  have "isAlive (store[cur := (store ! cur)\<lparr>isAlive := False\<rparr>] ! p) \<Longrightarrow> isAlive (store ! p)" for p
    using assms by (cases "p = cur") simp_all
  then show ?thesis by (auto intro: filter_cong_set)
qed

lemma shootBranch_props:
  assumes sb: "shootBranch cfg now rnd uid cur store g = (store', g', n, died, removed)"
    and av: "alive_view store g" and cur: "cur < length store"
  shows "players g' = players g" and "alive_view store' g'" and "died \<Longrightarrow> turn_in_range g'"
    and "length store' = length store" and "\<And>p. p \<noteq> cur \<Longrightarrow> store' ! p = store ! p"
proof -
  note fd = filter_after_death[OF cur, of "players g"]
  show "players g' = players g"
    using sb by (auto simp: shootBranch_def Let_def resetGun_def advanceChamber_def split: if_splits)
  show "alive_view store' g'"
    using sb av fd
    by (auto simp: shootBranch_def Let_def resetGun_def advanceChamber_def alive_view_def split: if_splits)
  show "turn_in_range g'" if died
    using sb that
    by (auto simp: shootBranch_def Let_def resetGun_def advanceChamber_def turn_in_range_def split: if_splits)
  show "length store' = length store"
    using sb by (auto simp: shootBranch_def Let_def split: if_splits)
  show "store' ! p = store ! p" if "p \<noteq> cur" for p
    using sb that by (auto simp: shootBranch_def Let_def split: if_splits)
qed

lemma manager_inv_finishAction:
  assumes inv: "manager_inv m" and g: "games m cid = Some g"
    and pl: "players g1 = players g" and av: "alive_view store' g1"
    and tr: "died \<Longrightarrow> turn_in_range g1"
    and len: "length store' = length (playerStore m)"
    and same: "\<And>p. p \<notin> set (players g) \<Longrightarrow> store' ! p = playerStore m ! p"
  shows "manager_inv (fst (finishAction now cid m store' g1 n died removed))"
proof -
  note own = own_players[OF inv g]
  have put: "manager_inv (m\<lparr> games := (games m)(cid \<mapsto> g2), playerStore := store' \<rparr>)"
    if "players g2 = players g" "alivePlayers g2 = alivePlayers g1" "turn_in_range g2" for g2
  proof (rule manager_inv_put[OF inv])
    show "p \<notin> set (players g2) \<and> store' ! p = playerStore m ! p"
      if "games m c = Some h" "c \<noteq> cid" "p \<in> set (players h)" for c h p
      using other_players[OF inv g that] \<open>players g2 = players g\<close> same by auto
    show "alive_view store' g2" using av that pl by (simp add: alive_view_def)
  qed (use own that len in auto)
  have drop: "manager_inv (m\<lparr> games := (games m)(cid := None), playerStore := store' \<rparr>)"
  proof (rule manager_inv_drop[OF inv])
    show "store' ! p = playerStore m ! p"
      if "games m c = Some h" "c \<noteq> cid" "p \<in> set (players h)" for c h p
      using other_players[OF inv g that] same by auto
  qed (use len in auto)
  have t1: "turn_in_range (g1\<lparr>state := finished\<rparr>)" by (simp add: turn_in_range_def)
  have t2: "turn_in_range g1" if "\<not> (state g1 = active \<and> \<not> died)"
    using that tr by (auto simp: turn_in_range_def)
  show ?thesis
    unfolding finishAction_def Let_def
    using put[of "g1\<lparr>state := finished\<rparr>"] put[of "advanceTurn g1"] put[of g1] drop t1 t2 pl
    by (auto simp: advanceTurn_fields)
qed

lemma manager_inv_handleAction:
  assumes inv: "manager_inv m"
  shows "manager_inv (fst (handleAction now rnd cid uid a m))"
proof (cases "games m cid")
  case None
  with inv show ?thesis by (simp add: handleAction_def)
next
  case (Some g)
  note own = own_players[OF inv Some]
  let ?g0 = "g\<lparr>turnTimer := None\<rparr>"
  let ?cur = "alivePlayers g ! currentTurnIndex g"
  have av0: "alive_view (playerStore m) ?g0" using own(3) by (simp add: alive_view_def)
  have passcase: "manager_inv (fst (finishAction now cid m (playerStore m) g1 n False False))"
    if "passBranch (config m) ?g0 = (g1, n)" for g1 n
    using passBranch_fields[OF that] av0
    by (intro manager_inv_finishAction[OF inv Some]) (simp_all add: alive_view_def)
  have shootcase: "manager_inv (fst (finishAction now cid m store' g1 n died removed))"
    if sb: "shootBranch (config m) now rnd uid ?cur (playerStore m) ?g0 = (store', g1, n, died, removed)"
      and idx: "currentTurnIndex g < length (alivePlayers g)"
    for store' g1 n died removed
  proof -
    have "?cur \<in> set (alivePlayers g)" using idx by simp
    then have curin: "?cur \<in> set (players g)" using own(3) by (simp add: alive_view_def)
    then have "?cur < length (playerStore m)" by (rule own(2))
    note props = shootBranch_props[OF sb av0 this]
    show ?thesis
    proof (rule manager_inv_finishAction[OF inv Some])
      show "store' ! p = playerStore m ! p" if "p \<notin> set (players g)" for p
        using that curin by (intro props(5)) auto
    qed (use props in simp_all)
  qed
  show ?thesis
    using Some inv passcase shootcase
    by (auto simp: handleAction_def Let_def split: action.splits prod.splits)
qed

lemma reachable_manager_inv: "reachable m \<Longrightarrow> manager_inv m"
proof (induction rule: reachable.induct)
  case (new cfg)
  show ?case by (rule manager_inv_new)
next
  case (create m now rnd cid sid m' g)
  then show ?case by (auto intro: manager_inv_createGame)
qed (simp_all add: manager_inv_addPlayer manager_inv_startGame manager_inv_handleAction
       manager_inv_stopGame manager_inv_endGame)

subsection \<open>The pools are never negative\<close>

lemma rake_bounds:
  assumes "0 \<le> entry" "0 \<le> pct" "pct \<le> 100"
  shows "0 \<le> fst (calculateEntryDistribution entry pct)"
    and "0 \<le> snd (calculateEntryDistribution entry pct)"
proof -
  have e: "0 \<le> entry * pct" using assms by simp
  have r: "fst (calculateEntryDistribution entry pct) = entry * pct div 100"
    using e by (simp add: calculateEntryDistribution_def Let_def bigint_div_nonneg)
  show "0 \<le> fst (calculateEntryDistribution entry pct)"
    using e unfolding r by (simp add: pos_imp_zdiv_nonneg_iff)
  have "entry * pct \<le> entry * 100" using assms by (simp add: mult_left_mono)
  then have "entry * pct div 100 \<le> entry * 100 div 100" by (rule zdiv_mono1) simp
  then have "entry * pct div 100 \<le> entry" by simp
  then show "0 \<le> snd (calculateEntryDistribution entry pct)"
    using e by (simp add: calculateEntryDistribution_def Let_def bigint_div_nonneg)
qed

lemma pools_createGame:
  "pools_nonneg m \<Longrightarrow> createGame now rnd cid sid m = Inr (m', g) \<Longrightarrow> pools_nonneg m'"
  by (auto simp: pools_nonneg_def createGame_def Let_def split: if_splits)

lemma pools_addPlayer:
  assumes "pools_nonneg m" "0 \<le> entry"
  shows "pools_nonneg (fst (addPlayer cid uid dname entry m))"
proof -
  have "0 \<le> rakePercent (config m)" "rakePercent (config m) \<le> 100"
    using assms(1) by (auto simp: pools_nonneg_def sane_config_def)
  note rb = rake_bounds[OF assms(2) this]
  show ?thesis
    using assms(1) rb
    by (auto simp: pools_nonneg_def addPlayer_def Let_def split: option.splits prod.splits)
qed

lemma pools_startGame: "pools_nonneg m \<Longrightarrow> pools_nonneg (fst (startGame rnd cid m))"
  by (auto simp: pools_nonneg_def startGame_def resetGun_def Let_def split: option.splits)

lemma pools_stopGame: "pools_nonneg m \<Longrightarrow> pools_nonneg (fst (stopGame cid m))"
  by (auto simp: pools_nonneg_def stopGame_def Let_def split: option.splits)

lemma pools_endGame: "pools_nonneg m \<Longrightarrow> pools_nonneg (endGame cid m)"
  by (auto simp: pools_nonneg_def endGame_def)

lemma pools_passBranch:
  assumes "passBranch cfg g = (g', n)" "sane_config cfg" "0 \<le> poolA g" "0 \<le> poolB g" "0 \<le> houseRake g"
  shows "0 \<le> poolA g' \<and> 0 \<le> poolB g' \<and> 0 \<le> houseRake g'"
  using assms by (auto simp: passBranch_def sane_config_def Let_def split: if_splits)

lemma pools_shootBranch:
  assumes "shootBranch cfg now rnd uid cur store g = (store', g', n, d, r)" "sane_config cfg"
    "0 \<le> poolA g" "0 \<le> poolB g" "0 \<le> houseRake g"
  shows "0 \<le> poolA g' \<and> 0 \<le> poolB g' \<and> 0 \<le> houseRake g'"
  using assms
  by (auto simp: shootBranch_def sane_config_def resetGun_def advanceChamber_def Let_def split: if_splits)

lemma pools_finishAction:
  assumes "pools_nonneg m" "0 \<le> poolA g \<and> 0 \<le> poolB g \<and> 0 \<le> houseRake g"
  shows "pools_nonneg (fst (finishAction now cid m store g n d r))"
  using assms
  by (auto simp: pools_nonneg_def finishAction_def advanceTurn_def Let_def)

lemma pools_handleAction:
  assumes "pools_nonneg m"
  shows "pools_nonneg (fst (handleAction now rnd cid uid a m))"
proof (cases "games m cid")
  case None
  with assms show ?thesis by (simp add: handleAction_def)
next
  case (Some g)
  with assms have p: "0 \<le> poolA (g\<lparr>turnTimer := None\<rparr>)" "0 \<le> poolB (g\<lparr>turnTimer := None\<rparr>)"
    "0 \<le> houseRake (g\<lparr>turnTimer := None\<rparr>)" and c: "sane_config (config m)"
    by (auto simp: pools_nonneg_def)
  have sb: "0 \<le> poolA g' \<and> 0 \<le> poolB g' \<and> 0 \<le> houseRake g'"
    if "shootBranch (config m) now rnd uid cur store (g\<lparr>turnTimer := None\<rparr>) = (store', g', n, d, r)"
    for cur store store' g' n d r
    using that c p by (rule pools_shootBranch)
  show ?thesis
    using Some assms pools_passBranch[OF _ c p] sb
    by (auto simp: handleAction_def Let_def split: action.splits prod.splits
          intro!: pools_finishAction)
qed

lemma paid_reachable_pools: "paid_reachable m \<Longrightarrow> pools_nonneg m"
proof (induction rule: paid_reachable.induct)
  case (new cfg)
  then show ?case by (simp add: pools_nonneg_def newManager_def)
next
  case (create m now rnd cid sid m' g)
  then show ?case by (auto intro: pools_createGame)
qed (simp_all add: pools_addPlayer pools_startGame pools_handleAction pools_stopGame pools_endGame)

lemma paid_reachable_reachable: "paid_reachable m \<Longrightarrow> reachable m"
  by (induction rule: paid_reachable.induct) (auto intro: reachable.intros)

lemma paid_reachable_ceiling_table: "paid_reachable ceiling_table"
proof -
  have c: "sane_config ceiling_config"
    by (simp add: sane_config_def ceiling_config_def DEFAULT_CONFIG_def)
  have "\<exists>g. createGame 1000 (1, 1) ''ch'' ''sp'' (newManager ceiling_config) = Inr (ceiling_lobby0, g)"
    by (simp add: ceiling_lobby0_def createGame_def newManager_def Let_def)
  then have "paid_reachable ceiling_lobby0"
    using paid_reachable.new[OF c] paid_reachable.create by blast
  then have "paid_reachable ceiling_lobby"
    unfolding ceiling_lobby_def by (intro paid_reachable.add) simp_all
  then show ?thesis
    unfolding ceiling_table_def by (rule paid_reachable.start)
qed

subsection \<open>What the callback sees\<close>

lemma finishAction_store:
  "playerStore (fst (finishAction now cid m store' g1 n died removed)) = store'"
  by (simp add: finishAction_def Let_def)

lemma finishAction_notes:
  assumes av: "alive_view store' g1" and tr: "died \<Longrightarrow> turn_in_range g1"
    and mem: "(g', n') \<in> set (snd (snd (finishAction now cid m store' g1 n died removed)))"
  shows "alive_view store' g' \<and> turn_in_range g'"
proof -
  have t2: "turn_in_range g1" if "\<not> (state g1 = active \<and> \<not> died)"
    using that tr by (auto simp: turn_in_range_def)
  have a: "alive_view store' (advanceTurn g1)" "alive_view store' (g1\<lparr>state := finished\<rparr>)"
    using av by (simp_all add: alive_view_def advanceTurn_fields)
  have t: "turn_in_range (g1\<lparr>state := finished\<rparr>)" by (simp add: turn_in_range_def)
  show ?thesis
    using mem av a t t2 advanceTurn_fields(4)[of g1]
    by (auto simp: finishAction_def Let_def split: if_splits)
qed

lemma handleAction_notes:
  assumes inv: "manager_inv m"
    and mem: "(g', n') \<in> set (snd (snd (handleAction now rnd cid uid a m)))"
  shows "alive_view (playerStore (fst (handleAction now rnd cid uid a m))) g' \<and> turn_in_range g'"
proof (cases "games m cid")
  case None
  with mem show ?thesis by (simp add: handleAction_def)
next
  case (Some g)
  note own = own_players[OF inv Some]
  let ?g0 = "g\<lparr>turnTimer := None\<rparr>"
  let ?cur = "alivePlayers g ! currentTurnIndex g"
  have av0: "alive_view (playerStore m) ?g0" using own(3) by (simp add: alive_view_def)
  have passcase: "alive_view (playerStore (fst (finishAction now cid m (playerStore m) g1 n False False))) g' \<and> turn_in_range g'"
    if "passBranch (config m) ?g0 = (g1, n)"
      and "(g', n') \<in> set (snd (snd (finishAction now cid m (playerStore m) g1 n False False)))"
    for g1 n
    unfolding finishAction_store
    using passBranch_fields[OF that(1)] av0
    by (intro finishAction_notes[OF _ _ that(2)]) (simp_all add: alive_view_def)
  have shootcase: "alive_view (playerStore (fst (finishAction now cid m store' g1 n died removed))) g' \<and> turn_in_range g'"
    if sb: "shootBranch (config m) now rnd uid ?cur (playerStore m) ?g0 = (store', g1, n, died, removed)"
      and idx: "currentTurnIndex g < length (alivePlayers g)"
      and "(g', n') \<in> set (snd (snd (finishAction now cid m store' g1 n died removed)))"
    for store' g1 n died removed
  proof -
    have "?cur \<in> set (alivePlayers g)" using idx by simp
    then have curin: "?cur \<in> set (players g)" using own(3) by (simp add: alive_view_def)
    then have "?cur < length (playerStore m)" by (rule own(2))
    note props = shootBranch_props[OF sb av0 this]
    show ?thesis unfolding finishAction_store
      by (rule finishAction_notes[OF props(2) props(3) that(3)])
  qed
  show ?thesis
    using Some mem passcase shootcase
    by (auto simp: handleAction_def Let_def split: action.splits prod.splits if_splits)
qed


subsection \<open>A shot that finds the bullet\<close>

lemma filter_drop_nth:
  assumes "distinct xs" "i < length xs"
  shows "filter (\<lambda>p. p \<noteq> xs ! i) xs = take i xs @ drop (Suc i) xs"
proof -
  have xs: "xs = take i xs @ xs ! i # drop (Suc i) xs"
    using assms(2) by (rule id_take_nth_drop)
  have d: "distinct (take i xs @ xs ! i # drop (Suc i) xs)" using assms(1) xs by simp
  then have a: "xs ! i \<notin> set (take i xs)" and b: "xs ! i \<notin> set (drop (Suc i) xs)" by auto
  have "filter (\<lambda>p. p \<noteq> xs ! i) (take i xs) = take i xs"
    and "filter (\<lambda>p. p \<noteq> xs ! i) (drop (Suc i) xs) = drop (Suc i) xs"
    using a b by (auto simp: filter_id_conv)
  then have "filter (\<lambda>p. p \<noteq> xs ! i) (take i xs @ xs ! i # drop (Suc i) xs) = take i xs @ drop (Suc i) xs"
    by simp
  with xs show ?thesis by simp
qed

text \<open>In a state that satisfies the invariant, the elimination removes exactly the turn-holder.\<close>

lemma alive_after_death:
  assumes inv: "manager_inv m" and g: "games m cid = Some g"
    and idx: "currentTurnIndex g < length (alivePlayers g)"
  defines "cur \<equiv> alivePlayers g ! currentTurnIndex g"
  defines "store' \<equiv> (playerStore m)[cur := (playerStore m ! cur)\<lparr>isAlive := False\<rparr>]"
  shows "filter (\<lambda>p. isAlive (store' ! p)) (alivePlayers g)
           = take (currentTurnIndex g) (alivePlayers g) @ drop (Suc (currentTurnIndex g)) (alivePlayers g)"
    and "filter (\<lambda>p. isAlive (store' ! p)) (players g) = filter (\<lambda>p. isAlive (store' ! p)) (alivePlayers g)"
    and "isAlive (playerStore m ! cur)"
proof -
  note own = own_players[OF inv g]
  have av: "alivePlayers g = filter (\<lambda>p. isAlive (playerStore m ! p)) (players g)"
    using own(3) by (simp add: alive_view_def)
  have dist: "distinct (alivePlayers g)" using own(1) av by simp
  have curin: "cur \<in> set (alivePlayers g)" using idx by (simp add: cur_def)
  then have curp: "cur \<in> set (players g)" and curalive: "isAlive (playerStore m ! cur)"
    using av by auto
  have curlt: "cur < length (playerStore m)" using own(2) curp by blast
  show "isAlive (playerStore m ! cur)" by (rule curalive)
  have "isAlive (store' ! p) \<longleftrightarrow> p \<noteq> cur" if "p \<in> set (alivePlayers g)" for p
    using that av curlt by (cases "p = cur") (auto simp: store'_def)
  then have "filter (\<lambda>p. isAlive (store' ! p)) (alivePlayers g) = filter (\<lambda>p. p \<noteq> cur) (alivePlayers g)"
    by (intro filter_cong_set) simp
  also have "\<dots> = take (currentTurnIndex g) (alivePlayers g) @ drop (Suc (currentTurnIndex g)) (alivePlayers g)"
    unfolding cur_def by (rule filter_drop_nth[OF dist idx])
  finally show "filter (\<lambda>p. isAlive (store' ! p)) (alivePlayers g)
           = take (currentTurnIndex g) (alivePlayers g) @ drop (Suc (currentTurnIndex g)) (alivePlayers g)" .
  show "filter (\<lambda>p. isAlive (store' ! p)) (players g) = filter (\<lambda>p. isAlive (store' ! p)) (alivePlayers g)"
    unfolding av store'_def by (rule filter_after_death[OF curlt, symmetric])
qed

text \<open>What a shot that finds the bullet returns, in terms of the list of survivors.\<close>

lemma handleAction_hit:
  assumes g: "games m cid = Some g" and st: "state g = active"
    and idx: "currentTurnIndex g < length (alivePlayers g)"
    and name: "toLowerCase (userId (playerStore m ! (alivePlayers g ! currentTurnIndex g))) = toLowerCase uid"
    and alive: "isAlive (playerStore m ! (alivePlayers g ! currentTurnIndex g))"
    and bullet: "checkChamber g"
    and res: "handleAction now rnd cid uid shoot m = (m', out, calls)"
  defines "cur \<equiv> alivePlayers g ! currentTurnIndex g"
  defines "store' \<equiv> (playerStore m)[cur := (playerStore m ! cur)\<lparr>isAlive := False\<rparr>]"
  defines "alive' \<equiv> filter (\<lambda>p. isAlive (store' ! p)) (alivePlayers g)"
  shows "playerStore m' = store'"
    and "length alive' = 1 \<Longrightarrow>
           out = Success (BangWin uid (userId (store' ! (alive' ! 0))) (poolA g))
         \<and> games m' cid = None
         \<and> (\<exists>g'. calls = [(g', BangWin uid (userId (store' ! (alive' ! 0))) (poolA g))]
                \<and> state g' = finished \<and> alivePlayers g' = alive' \<and> poolA g' = poolA g
                \<and> players g' = players g)"
    and "2 \<le> length alive' \<Longrightarrow>
           (\<exists>g' n. calls = [(g', n)] \<and> alivePlayers g' = alive' \<and> players g' = players g
                \<and> currentTurnIndex g' = (if currentTurnIndex g \<ge> length alive' then 0
                                           else currentTurnIndex g)
                \<and> (state g' = active \<longrightarrow> games m' cid = Some g' \<and> out = Success (BangReloaded uid (length alive')))
                \<and> (state g' \<noteq> active \<longrightarrow> state g' = finished \<and> games m' cid = None \<and> out = Success DurationLimitReached))"
proof -
  show "playerStore m' = store'"
    using assms(1-7) unfolding store'_def cur_def
    by (auto simp: handleAction_def shootBranch_def finishAction_def Let_def checkChamber_def resetGun_def
          split: if_splits)
  show "out = Success (BangWin uid (userId (store' ! (alive' ! 0))) (poolA g))
         \<and> games m' cid = None
         \<and> (\<exists>g'. calls = [(g', BangWin uid (userId (store' ! (alive' ! 0))) (poolA g))]
                \<and> state g' = finished \<and> alivePlayers g' = alive' \<and> poolA g' = poolA g
                \<and> players g' = players g)" if "length alive' = 1"
    using assms(1-7) that unfolding alive'_def store'_def cur_def
    by (auto simp: handleAction_def shootBranch_def finishAction_def Let_def checkChamber_def resetGun_def
          split: if_splits)
  show "\<exists>g' n. calls = [(g', n)] \<and> alivePlayers g' = alive' \<and> players g' = players g
                \<and> currentTurnIndex g' = (if currentTurnIndex g \<ge> length alive' then 0
                                           else currentTurnIndex g)
                \<and> (state g' = active \<longrightarrow> games m' cid = Some g' \<and> out = Success (BangReloaded uid (length alive')))
                \<and> (state g' \<noteq> active \<longrightarrow> state g' = finished \<and> games m' cid = None \<and> out = Success DurationLimitReached)" 
    if "2 \<le> length alive'"
  proof -
    from that have "length alive' \<noteq> 1" "length alive' \<noteq> 0" "alive' \<noteq> []" by auto
    then show ?thesis
      using assms(1-7) unfolding alive'_def store'_def cur_def
      by (auto simp: handleAction_def shootBranch_def finishAction_def Let_def checkChamber_def resetGun_def
            split: if_splits)
  qed
qed

section \<open>The claims\<close>

subsection \<open>C1: advancing the chamber\<close>

text \<open>
  C1 says that \<^verbatim>\<open>advanceChamber\<close> sets \<^verbatim>\<open>gunChamber\<close> to \<open>(gunChamber + 1) mod chambers\<close>
  for the configured number of chambers, so that \<open>0 \<le> gunChamber < chambers\<close> is kept.
  The code takes the remainder by \<^verbatim>\<open>game.chambers\<close>, a property that no game has
  (\<^verbatim>\<open>chambers\<close> belongs to the configuration): whatever the game, the chamber position
  after the call is \<^verbatim>\<open>NaN\<close>. At the table of three, just started with six chambers
  configured and the chamber position 0, it is not \<open>(0 + 1) mod 6\<close>; and after a shot
  that \<^verbatim>\<open>handleAction\<close> resolves as safe, the game in the registry has the chamber
  position \<^verbatim>\<open>NaN\<close>.
\<close>

theorem advanceChamber_not_a_number:
  "gunChamber (advanceChamber game) = NaN
   \<and> gunChamber (the (games table3 ''ch'')) = Finite 0
   \<and> chambers (config table3) = 6
   \<and> gunChamber (advanceChamber (the (games table3 ''ch'')))
        \<noteq> Finite ((0 + 1) mod int (chambers (config table3)))
   \<and> gunChamber (the (games table3_shot ''ch'')) = Finite 0
   \<and> fst (snd (handleAction 3000 (0, 0) ''ch'' ''0xb'' shoot table3_shot))
        = Success (ClickSafe False 900 0)
   \<and> gunChamber (the (games table3_click ''ch'')) = NaN"
  by (cases "gunChamber game")
     (simp_all add: advanceChamber_def game_chambers_def table3_eq table3_shot_eq
        table3_click_def handleAction_def shootBranch_def finishAction_def advanceTurn_def
        checkChamber_def DEFAULT_CONFIG_def Let_def)

subsection \<open>C2: stopping a game that has not started\<close>

text \<open>
  C2 says that \<^verbatim>\<open>stopGame\<close> on a waiting game with \<open>n \<ge> 1\<close> joined players and
  \<open>poolA + houseRake > 0\<close> refunds \<open>floor ((poolA + houseRake) / n)\<close> to each of them: 333
  each for three players and a total of 1000. The code reaches the branch that returns the
  rake only when no player is alive or pool A is empty; in a lobby every player is alive.
  In the lobby of three, with 900 in pool A and a rake of 100, the refund announced is
  \<open>900 div 3 = 300\<close> to each remaining player, and the rake is not returned.
\<close>

theorem stopGame_waiting_keeps_rake:
  "state (the (games lobby3 ''ch'')) = waiting
   \<and> length (players (the (games lobby3 ''ch''))) = 3
   \<and> poolA (the (games lobby3 ''ch'')) + houseRake (the (games lobby3 ''ch'')) = 1000
   \<and> snd (stopGame ''ch'' lobby3)
       = Inr (RefundAlive 300 [''0xa'', ''0xb'', ''0xc''],
              (the (games lobby3 ''ch''))\<lparr>state := finished\<rparr>)"
  by (simp add: lobby3_eq stopGame_def bigint_div_def names_def Let_def)

subsection \<open>C3: the bullet position\<close>

text \<open>
  C3, as amended: whatever number of chambers is configured, the bullet position drawn at
  game creation and by \<^verbatim>\<open>resetGun\<close> is an integer \<open>k\<close> with \<open>0 \<le> k < 6\<close>. It is uniform over
  \<open>[0, 6)\<close> up to the rounding of the product of doubles, when the draw of
  \<^verbatim>\<open>Math.random()\<close> is uniform over \<open>[0, 1)\<close>: it is \<open>j\<close> for every draw from \<open>j/6\<close> up to
  \<open>(j+1)/6 - 1/2 ^ 53\<close>, and only for draws from \<open>j/6 - 1/2 ^ 53\<close> up to \<open>(j+1)/6\<close>, six
  intervals of one length. \<^verbatim>\<open>resetGun\<close> also sets the chamber position to 0.
\<close>

theorem bullet_position_six_chambers:
  assumes "unit_draw rnd"
  shows "(\<exists>k. 0 \<le> k \<and> k < 6
            \<and> bulletChamber (resetGun rnd game) = Finite k
            \<and> (\<forall>m' g. createGame now rnd cid sid m = Inr (m', g) \<longrightarrow> bulletChamber g = Finite k))
       \<and> (\<forall>j. real_of_int j / 6 \<le> draw_value rnd
                \<and> draw_value rnd < (real_of_int j + 1) / 6 - 1 / 2 ^ 53
              \<longrightarrow> bulletChamber (resetGun rnd game) = Finite j)
       \<and> (\<forall>j. bulletChamber (resetGun rnd game) = Finite j
              \<longrightarrow> real_of_int j / 6 - 1 / 2 ^ 53 \<le> draw_value rnd
                \<and> draw_value rnd < (real_of_int j + 1) / 6)
       \<and> gunChamber (resetGun rnd game) = Finite 0"
proof -
  let ?k = "\<lfloor>times6 rnd\<rfloor>"
  have k0: "0 \<le> ?k" using times6_nonneg[OF assms] by simp
  have k6: "?k < 6" using times6_below_6[OF assms] by (simp add: floor_less_iff)
  have b: "bulletChamber (resetGun rnd game) = Finite ?k"
    by (simp add: resetGun_def randomBulletPosition_def)
  have 1: "\<exists>k. 0 \<le> k \<and> k < 6
            \<and> bulletChamber (resetGun rnd game) = Finite k
            \<and> (\<forall>m' g. createGame now rnd cid sid m = Inr (m', g) \<longrightarrow> bulletChamber g = Finite k)"
    by (rule exI[of _ ?k])
       (use k0 k6 in \<open>auto simp: resetGun_def randomBulletPosition_def createGame_def Let_def
                        split: if_splits\<close>)
  have 2: "\<forall>j. real_of_int j / 6 \<le> draw_value rnd
                \<and> draw_value rnd < (real_of_int j + 1) / 6 - 1 / 2 ^ 53
              \<longrightarrow> bulletChamber (resetGun rnd game) = Finite j"
    unfolding b using bullet_interval[OF assms] by blast
  have 3: "\<forall>j. bulletChamber (resetGun rnd game) = Finite j
              \<longrightarrow> real_of_int j / 6 - 1 / 2 ^ 53 \<le> draw_value rnd
                \<and> draw_value rnd < (real_of_int j + 1) / 6"
    unfolding b using bullet_interval_only[OF assms] by blast
  have 4: "gunChamber (resetGun rnd game) = Finite 0"
    by (simp add: resetGun_def)
  from 1 2 3 4 show ?thesis by blast
qed

theorem bullet_position_six_chambers_witness:
  "unit_draw (7, 3)
   \<and> bulletChamber (resetGun (7, 3) (the (games lobby0 ''ch''))) = Finite 5
   \<and> real_of_int 5 / 6 \<le> draw_value (7, 3)
   \<and> draw_value (7, 3) < (real_of_int 5 + 1) / 6 - 1 / 2 ^ 53
   \<and> real_of_int 5 / 6 - 1 / 2 ^ 53 \<le> draw_value (7, 3)
   \<and> draw_value (7, 3) < (real_of_int 5 + 1) / 6
   \<and> gunChamber (resetGun (7, 3) (the (games lobby0 ''ch''))) = Finite 0
   \<and> createGame 1000 (7, 3) ''ch'' ''sp'' (newManager four_chambers)
       = Inr (lobby4, the (games lobby4 ''ch''))
   \<and> bulletChamber (the (games lobby4 ''ch'')) = Finite 5"
proof -
  let ?g = "the (games lobby0 ''ch'')"
  have pre: "unit_draw (7, 3)"
    by (simp add: unit_draw_def draw_value_def)
  have iv: "real_of_int 5 / 6 \<le> draw_value (7, 3)"
    "draw_value (7, 3) < (real_of_int 5 + 1) / 6 - 1 / 2 ^ 53"
    by (simp_all add: draw_value_def)
  have cr: "createGame 1000 (7, 3) ''ch'' ''sp'' (newManager four_chambers)
       = Inr (lobby4, the (games lobby4 ''ch''))"
    by (simp add: lobby4_eq createGame_def newManager_def draw_positions Let_def)
  note inst = bullet_position_six_chambers
    [OF pre, of ?g 1000 "''ch''" "''sp''" "newManager four_chambers"]
  have pos: "bulletChamber (resetGun (7, 3) ?g) = Finite 5"
    using inst iv by blast
  have only: "real_of_int 5 / 6 - 1 / 2 ^ 53 \<le> draw_value (7, 3)"
    "draw_value (7, 3) < (real_of_int 5 + 1) / 6"
    using inst pos by blast+
  have gun: "gunChamber (resetGun (7, 3) ?g) = Finite 0"
    using inst by blast
  have made: "bulletChamber (the (games lobby4 ''ch'')) = Finite 5"
    using inst cr pos by auto
  show ?thesis
    by (intro conjI) (rule pre iv cr pos only gun made)+
qed

text \<open>
  C3 as stated fails: with four chambers configured, the draw \<open>7/8\<close> puts the bullet in
  position 5, at game creation and in \<^verbatim>\<open>resetGun\<close>, and 5 is not below 4.
\<close>

theorem bullet_outside_configured_chambers:
  "chambers (config lobby4) = 4
   \<and> unit_draw (7, 3)
   \<and> createGame 1000 (7, 3) ''ch'' ''sp'' (newManager four_chambers)
       = Inr (lobby4, the (games lobby4 ''ch''))
   \<and> bulletChamber (the (games lobby4 ''ch'')) = Finite 5
   \<and> bulletChamber (resetGun (7, 3) (the (games lobby4 ''ch''))) = Finite 5
   \<and> \<not> (5 < int (chambers (config lobby4)))"
  by (simp add: lobby4_eq four_chambers_def DEFAULT_CONFIG_def resetGun_def draw_positions
        unit_draw_def draw_value_def createGame_def newManager_def Let_def)

subsection \<open>C4: the last survivor\<close>

text \<open>
  C4. In a reachable state, when the turn-holder's shot finds the bullet and exactly one
  player \<open>w\<close> of the game is alive afterwards, \<^verbatim>\<open>handleAction\<close> succeeds with the message
  that \<open>w\<close> wins the whole of pool A, the game passed to the callback is finished with \<open>w\<close>
  as its only alive player and pool A untouched, and the game is removed from the registry:
  every later action on the channel finds no game.
\<close>

theorem last_survivor_wins:
  assumes reach: "reachable m"
    and g: "games m cid = Some g" and st: "state g = active"
    and idx: "currentTurnIndex g < length (alivePlayers g)"
    and name: "toLowerCase (userId (playerStore m ! (alivePlayers g ! currentTurnIndex g))) = toLowerCase uid"
    and bullet: "checkChamber g"
    and res: "handleAction now rnd cid uid shoot m = (m', out, calls)"
    and one: "filter (\<lambda>p. isAlive (playerStore m' ! p)) (players g) = [w]"
  shows "out = Success (BangWin uid (userId (playerStore m' ! w)) (poolA g))
       \<and> (\<exists>g'. calls = [(g', BangWin uid (userId (playerStore m' ! w)) (poolA g))]
              \<and> state g' = finished \<and> alivePlayers g' = [w] \<and> poolA g' = poolA g)
       \<and> \<not> isAlive (playerStore m' ! (alivePlayers g ! currentTurnIndex g))
       \<and> games m' cid = None
       \<and> (\<forall>now' rnd' uid' a'. handleAction now' rnd' cid uid' a' m' = (m', Failure NotFoundError, []))"
proof -
  have inv: "manager_inv m" using reach by (rule reachable_manager_inv)
  note ad = alive_after_death[OF inv g idx]
  note hit = handleAction_hit[OF g st idx name ad(3) bullet res]
  note own = own_players[OF inv g]
  let ?cur = "alivePlayers g ! currentTurnIndex g"
  have "?cur \<in> set (alivePlayers g)" using idx by simp
  then have "?cur \<in> set (players g)" using own(3) by (simp add: alive_view_def)
  then have curlt: "?cur < length (playerStore m)" by (rule own(2))
  have al: "filter (\<lambda>p. isAlive (playerStore m' ! p)) (alivePlayers g) = [w]"
    using one ad(2) hit(1) by simp
  then have len: "length (filter (\<lambda>p. isAlive ((playerStore m)[?cur := (playerStore m ! ?cur)\<lparr>isAlive := False\<rparr>] ! p)) (alivePlayers g)) = 1"
    using hit(1) by simp
  have dead: "\<not> isAlive (playerStore m' ! ?cur)" using hit(1) curlt by simp
  have none: "games m' cid = None" using hit(2)[OF len] by simp
  have "handleAction now' rnd' cid uid' a' m' = (m', Failure NotFoundError, [])" for now' rnd' uid' a'
    using none by (simp add: handleAction_def)
  then show ?thesis
    using hit(2)[OF len] al dead hit(1) by auto
qed

theorem last_survivor_wins_witness:
  "reachable duel
   \<and> games duel ''ch'' = Some (the (games duel ''ch''))
   \<and> state (the (games duel ''ch'')) = active
   \<and> currentTurnIndex (the (games duel ''ch'')) < length (alivePlayers (the (games duel ''ch'')))
   \<and> toLowerCase (userId (playerStore duel ! (alivePlayers (the (games duel ''ch''))
          ! currentTurnIndex (the (games duel ''ch''))))) = toLowerCase ''0xA''
   \<and> checkChamber (the (games duel ''ch''))
   \<and> fst (handleAction 2000 (1, 1) ''ch'' ''0xA'' shoot duel) = duel_won
   \<and> filter (\<lambda>p. isAlive (playerStore duel_won ! p)) (players (the (games duel ''ch''))) = [1]
   \<and> fst (snd (handleAction 2000 (1, 1) ''ch'' ''0xA'' shoot duel))
        = Success (BangWin ''0xA'' ''0xb'' 630)
   \<and> map snd (snd (snd (handleAction 2000 (1, 1) ''ch'' ''0xA'' shoot duel)))
        = [BangWin ''0xA'' ''0xb'' 630]
   \<and> map (\<lambda>c. state (fst c)) (snd (snd (handleAction 2000 (1, 1) ''ch'' ''0xA'' shoot duel)))
        = [finished]
   \<and> games duel_won ''ch'' = None"
proof -
  let ?r = "handleAction 2000 (1, 1) ''ch'' ''0xA'' shoot duel"
  have res: "?r = (duel_won, fst (snd ?r), snd (snd ?r))" by (simp add: duel_won_def)
  have e: "fst ?r = duel_won" by (simp add: duel_won_def)
  have pre: "games duel ''ch'' = Some (the (games duel ''ch''))"
    "state (the (games duel ''ch'')) = active"
    "currentTurnIndex (the (games duel ''ch'')) < length (alivePlayers (the (games duel ''ch'')))"
    "toLowerCase (userId (playerStore duel ! (alivePlayers (the (games duel ''ch''))
          ! currentTurnIndex (the (games duel ''ch''))))) = toLowerCase ''0xA''"
    "checkChamber (the (games duel ''ch''))"
    "filter (\<lambda>p. isAlive (playerStore duel_won ! p)) (players (the (games duel ''ch''))) = [1]"
    by (simp_all add: duel_eq duel_won_eq checkChamber_def)
  from last_survivor_wins [OF reachable_duel pre(1-5) res pre(6)] pre e reachable_duel
  show ?thesis
    by (auto simp: duel_eq duel_won_eq)
qed

subsection \<open>C5: the turn after an elimination\<close>

text \<open>
  C5. In a reachable state, when the turn-holder's shot finds the bullet and two or more
  players of the game are alive afterwards, \<^verbatim>\<open>alivePlayers\<close> is the old list without the
  turn-holder, \<^verbatim>\<open>currentTurnIndex\<close> is unchanged unless it is at or past the end of that
  list, in which case it is 0, and the player it now points to is the one who followed the
  eliminated player in the old rotation. The game stays in the registry while it is active.
\<close>

theorem elimination_keeps_slot:
  assumes reach: "reachable m"
    and g: "games m cid = Some g" and st: "state g = active"
    and idx: "currentTurnIndex g < length (alivePlayers g)"
    and name: "toLowerCase (userId (playerStore m ! (alivePlayers g ! currentTurnIndex g))) = toLowerCase uid"
    and bullet: "checkChamber g"
    and res: "handleAction now rnd cid uid shoot m = (m', out, calls)"
    and more: "2 \<le> length (filter (\<lambda>p. isAlive (playerStore m' ! p)) (players g))"
  shows "\<exists>g' n. calls = [(g', n)]
           \<and> alivePlayers g' = take (currentTurnIndex g) (alivePlayers g)
                                  @ drop (Suc (currentTurnIndex g)) (alivePlayers g)
           \<and> currentTurnIndex g' = (if currentTurnIndex g \<ge> length (alivePlayers g') then 0
                                      else currentTurnIndex g)
           \<and> alivePlayers g' ! currentTurnIndex g'
               = alivePlayers g ! ((currentTurnIndex g + 1) mod length (alivePlayers g))
           \<and> (state g' = active \<longrightarrow> games m' cid = Some g')"
proof -
  have inv: "manager_inv m" using reach by (rule reachable_manager_inv)
  note ad = alive_after_death[OF inv g idx]
  note hit = handleAction_hit[OF g st idx name ad(3) bullet res]
  let ?xs = "alivePlayers g" and ?i = "currentTurnIndex g"
  let ?ys = "take ?i ?xs @ drop (Suc ?i) ?xs"
  have ys: "filter (\<lambda>p. isAlive (playerStore m' ! p)) (players g) = ?ys"
    using ad(1,2) hit(1) by simp
  have len: "length ?ys = length ?xs - 1" using idx by simp
  have two: "2 \<le> length ?ys" using more ys by simp
  have nth: "?ys ! (if ?i \<ge> length ?ys then 0 else ?i) = ?xs ! ((?i + 1) mod length ?xs)"
  proof (cases "?i \<ge> length ?ys")
    case True
    then have i: "?i = length ?xs - 1" using idx len by simp
    then have "?i + 1 = length ?xs" using idx by simp
    moreover have "0 < ?i" using i two len by simp
    ultimately show ?thesis using True by (simp add: nth_append)
  next
    case False
    then have "Suc ?i < length ?xs" using len by simp
    then show ?thesis using False by (simp add: nth_append)
  qed
  from hit(3) two ad(1) hit(1)
  obtain g' n where c: "calls = [(g', n)]" and a: "alivePlayers g' = ?ys"
    and t: "currentTurnIndex g' = (if ?i \<ge> length ?ys then 0 else ?i)"
    and s: "state g' = active \<longrightarrow> games m' cid = Some g'"
    by auto
  show ?thesis
    using c a t s nth by simp
qed

theorem elimination_keeps_slot_witness:
  "reachable table3_last
   \<and> games table3_last ''ch'' = Some (the (games table3_last ''ch''))
   \<and> state (the (games table3_last ''ch'')) = active
   \<and> alivePlayers (the (games table3_last ''ch'')) = [0, 1, 2]
   \<and> currentTurnIndex (the (games table3_last ''ch'')) = 2
   \<and> toLowerCase (userId (playerStore table3_last ! 2)) = toLowerCase ''0xc''
   \<and> checkChamber (the (games table3_last ''ch''))
   \<and> handleAction 4000 (1, 1) ''ch'' ''0xc'' shoot table3_last
        = (table3_wrapped, Success (BangReloaded ''0xc'' 2),
           [(the (games table3_wrapped ''ch''), BangReloaded ''0xc'' 2)])
   \<and> filter (\<lambda>p. isAlive (playerStore table3_wrapped ! p))
         (players (the (games table3_last ''ch''))) = [0, 1]
   \<and> alivePlayers (the (games table3_wrapped ''ch'')) = [0, 1]
   \<and> currentTurnIndex (the (games table3_wrapped ''ch'')) = 0
   \<and> state (the (games table3_wrapped ''ch'')) = active"
proof -
  let ?g = "the (games table3_last ''ch'')"
  have res: "handleAction 4000 (1, 1) ''ch'' ''0xc'' shoot table3_last
        = (table3_wrapped, Success (BangReloaded ''0xc'' 2),
           [(the (games table3_wrapped ''ch''), BangReloaded ''0xc'' 2)])"
    by (simp add: table3_last_eq table3_wrapped_eq run_defs)
  have pre: "games table3_last ''ch'' = Some ?g"
    "state ?g = active"
    "currentTurnIndex ?g < length (alivePlayers ?g)"
    "toLowerCase (userId (playerStore table3_last ! (alivePlayers ?g ! currentTurnIndex ?g))) = toLowerCase ''0xc''"
    "checkChamber ?g"
    "2 \<le> length (filter (\<lambda>p. isAlive (playerStore table3_wrapped ! p)) (players ?g))"
    by (simp_all add: table3_last_eq table3_wrapped_eq checkChamber_def)
  have post: "alivePlayers ?g = [0, 1, 2]" "currentTurnIndex ?g = 2"
    "toLowerCase (userId (playerStore table3_last ! 2)) = toLowerCase ''0xc''"
    "filter (\<lambda>p. isAlive (playerStore table3_wrapped ! p)) (players ?g) = [0, 1]"
    "alivePlayers (the (games table3_wrapped ''ch'')) = [0, 1]"
    "currentTurnIndex (the (games table3_wrapped ''ch'')) = 0"
    "state (the (games table3_wrapped ''ch'')) = active"
    by (simp_all add: table3_last_eq table3_wrapped_eq)
  note inst = elimination_keeps_slot [OF reachable_table3_last pre(1-5) res pre(6)]
  show ?thesis
    using inst by (intro conjI) (rule reachable_table3_last pre res post)+
qed

subsection \<open>C6: the forced shot\<close>

text \<open>
  C6. For an action of the turn-holder: a pass while \<^verbatim>\<open>forcedShoot\<close> is set fails with
  the forced-shoot error, changes nothing and calls nothing. Every other action goes
  through, and in the resulting game \<^verbatim>\<open>forcedShoot\<close> is set exactly when the action was a
  pass that brought \<^verbatim>\<open>consecutivePasses\<close> to at least the number of alive players; a shot
  leaves \<^verbatim>\<open>forcedShoot\<close> cleared and \<^verbatim>\<open>consecutivePasses\<close> at 0. The resulting game is
  the one passed to the callback, and the one in the registry when the game is still there.
\<close>

theorem forced_shoot_rule:
  assumes g: "games m cid = Some g" and st: "state g = active"
    and idx: "currentTurnIndex g < length (alivePlayers g)"
    and name: "toLowerCase (userId (playerStore m ! (alivePlayers g ! currentTurnIndex g))) = toLowerCase uid"
    and alive: "isAlive (playerStore m ! (alivePlayers g ! currentTurnIndex g))"
    and res: "handleAction now rnd cid uid a m = (m', out, calls)"
  shows "(a = pass \<and> forcedShoot g \<longrightarrow> m' = m \<and> out = Failure ForcedShootError \<and> calls = [])
       \<and> (\<not> (a = pass \<and> forcedShoot g) \<longrightarrow>
            (\<exists>g'. ((\<exists>n n'. out = Success n \<and> calls = [(g', n')])
                     \<or> (out = Thrown \<and> calls = [] \<and> games m' cid = Some g'))
                 \<and> (\<forall>h. games m' cid = Some h \<longrightarrow> h = g')
                 \<and> (forcedShoot g' \<longleftrightarrow> a = pass \<and> consecutivePasses g + 1 \<ge> length (alivePlayers g))
                 \<and> consecutivePasses g' = (case a of shoot \<Rightarrow> 0 | pass \<Rightarrow> consecutivePasses g + 1)))"
proof (cases a)
  case pass
  show ?thesis
  proof (cases "forcedShoot g")
    case True
    with assms pass show ?thesis by (simp add: handleAction_def Let_def)
  next
    case False
    with assms pass show ?thesis
      by (auto simp: handleAction_def passBranch_def finishAction_def advanceTurn_def Let_def
            split: if_splits)
  qed
next
  case shoot
  show ?thesis
  proof (cases "checkChamber g")
    case True
    with assms shoot show ?thesis
      by (auto simp: handleAction_def shootBranch_def finishAction_def advanceTurn_def Let_def
            checkChamber_def resetGun_def split: if_splits)
  next
    case False
    with assms shoot show ?thesis
      by (auto simp: handleAction_def shootBranch_def finishAction_def advanceTurn_def Let_def
            checkChamber_def advanceChamber_def split: if_splits)
  qed
qed

theorem forced_shoot_rule_witness:
  "games table3_last ''ch'' = Some (the (games table3_last ''ch''))
   \<and> state (the (games table3_last ''ch'')) = active
   \<and> \<not> forcedShoot (the (games table3_last ''ch''))
   \<and> consecutivePasses (the (games table3_last ''ch'')) + 1
        \<ge> length (alivePlayers (the (games table3_last ''ch'')))
   \<and> toLowerCase (userId (playerStore table3_last ! 2)) = toLowerCase ''0xc''
   \<and> handleAction 4000 (0, 0) ''ch'' ''0xc'' pass table3_last
        = (table3_forced, Success (Passed 900 450000000000000 True),
           [(the (games table3_forced ''ch''), Passed 900 450000000000000 True)])
   \<and> forcedShoot (the (games table3_forced ''ch''))
   \<and> consecutivePasses (the (games table3_forced ''ch'')) = 3
   \<and> toLowerCase (userId (playerStore table3_forced ! 0)) = toLowerCase ''0xA''
   \<and> handleAction 5000 (0, 0) ''ch'' ''0xA'' pass table3_forced
        = (table3_forced, Failure ForcedShootError, [])
   \<and> map (\<lambda>c. (forcedShoot (fst c), consecutivePasses (fst c)))
         (snd (snd (handleAction 5000 (1, 1) ''ch'' ''0xA'' shoot table3_forced)))
        = [(False, 0)]"
proof -
  let ?g1 = "the (games table3_last ''ch'')"
  let ?g2 = "the (games table3_forced ''ch'')"
  let ?r3 = "handleAction 5000 (1, 1) ''ch'' ''0xA'' shoot table3_forced"
  have res1: "handleAction 4000 (0, 0) ''ch'' ''0xc'' pass table3_last
        = (table3_forced, Success (Passed 900 450000000000000 True),
           [(the (games table3_forced ''ch''), Passed 900 450000000000000 True)])"
    by (simp add: table3_last_eq table3_forced_eq run_defs numeral_3_eq_3)
  have res2: "handleAction 5000 (0, 0) ''ch'' ''0xA'' pass table3_forced
        = (table3_forced, Failure ForcedShootError, [])"
    by (simp add: table3_forced_eq run_defs)
  have res3: "?r3 = (fst ?r3, fst (snd ?r3), snd (snd ?r3))" by simp
  have pre1: "games table3_last ''ch'' = Some ?g1"
    "state ?g1 = active"
    "currentTurnIndex ?g1 < length (alivePlayers ?g1)"
    "toLowerCase (userId (playerStore table3_last ! (alivePlayers ?g1 ! currentTurnIndex ?g1))) = toLowerCase ''0xc''"
    "isAlive (playerStore table3_last ! (alivePlayers ?g1 ! currentTurnIndex ?g1))"
    by (simp_all add: table3_last_eq)
  have pre2: "games table3_forced ''ch'' = Some ?g2"
    "state ?g2 = active"
    "currentTurnIndex ?g2 < length (alivePlayers ?g2)"
    "toLowerCase (userId (playerStore table3_forced ! (alivePlayers ?g2 ! currentTurnIndex ?g2))) = toLowerCase ''0xA''"
    "isAlive (playerStore table3_forced ! (alivePlayers ?g2 ! currentTurnIndex ?g2))"
    by (simp_all add: table3_forced_eq)
  have post: "\<not> forcedShoot ?g1"
    "consecutivePasses ?g1 + 1 \<ge> length (alivePlayers ?g1)"
    "toLowerCase (userId (playerStore table3_last ! 2)) = toLowerCase ''0xc''"
    "forcedShoot ?g2" "consecutivePasses ?g2 = 3"
    "toLowerCase (userId (playerStore table3_forced ! 0)) = toLowerCase ''0xA''"
    by (simp_all add: table3_last_eq table3_forced_eq)
  have shot: "map (\<lambda>c. (forcedShoot (fst c), consecutivePasses (fst c))) (snd (snd ?r3)) = [(False, 0)]"
    by (simp add: table3_forced_eq run_defs)
  note inst = forced_shoot_rule [OF pre1 res1] forced_shoot_rule [OF pre2 res2]
    forced_shoot_rule [OF pre2 res3]
  show ?thesis
    using inst by (intro conjI) (rule pre1 pre2 res1 res2 post shot)+
qed

subsection \<open>C7: the ceiling on safe shots\<close>

text \<open>
  C7. When the turn-holder's shot finds no bullet and brings \<^verbatim>\<open>consecutiveSafeShots\<close> to
  \<^verbatim>\<open>maxSafeShots\<close> or more, \<^verbatim>\<open>handleAction\<close> succeeds: the message refunds the
  \<^verbatim>\<open>bigint\<close> quotient of pool A by the number of alive players to each of them; the game
  passed to the callback is finished, and the game is removed from the registry, the other
  channels untouched. For a pool that is not negative the quotient is
  \<open>floor (poolA / len alivePlayers)\<close> and \<open>poolA mod len alivePlayers\<close> is left out; and
  the pool is not negative in any state reached with non-negative entries under a
  configuration with a rake between 0 and 100 percent and non-negative penalty and bonus.
\<close>

theorem safe_shot_ceiling_terminates:
  assumes g: "games m cid = Some g" and st: "state g = active"
    and idx: "currentTurnIndex g < length (alivePlayers g)"
    and name: "toLowerCase (userId (playerStore m ! (alivePlayers g ! currentTurnIndex g))) = toLowerCase uid"
    and alive: "isAlive (playerStore m ! (alivePlayers g ! currentTurnIndex g))"
    and safe: "\<not> checkChamber g"
    and ceiling: "consecutiveSafeShots g + 1 \<ge> maxSafeShots (config m)"
    and res: "handleAction now rnd cid uid shoot m = (m', out, calls)"
  shows "\<exists>g' refund.
           out = Success (SafeShotsTerminated refund (names (playerStore m) (alivePlayers g)))
         \<and> calls = [(g', SafeShotsTerminated refund (names (playerStore m) (alivePlayers g)))]
         \<and> refund = bigint_div (poolA g) (int (length (alivePlayers g)))
         \<and> (0 \<le> poolA g \<longrightarrow>
               refund = poolA g div int (length (alivePlayers g))
             \<and> poolA g - int (length (alivePlayers g)) * refund
                 = poolA g mod int (length (alivePlayers g)))
         \<and> (paid_reachable m \<longrightarrow> 0 \<le> poolA g)
         \<and> state g' = finished \<and> alivePlayers g' = alivePlayers g \<and> poolA g' = poolA g
         \<and> playerStore m' = playerStore m
         \<and> games m' cid = None
         \<and> (\<forall>c. c \<noteq> cid \<longrightarrow> games m' c = games m c)"
proof -
  let ?n = "int (length (alivePlayers g))"
  have "0 < ?n" using idx by auto
  then have rf: "bigint_div (poolA g) ?n = poolA g div ?n" if "0 \<le> poolA g"
    using that by (simp add: bigint_div_nonneg)
  have md: "poolA g - ?n * (poolA g div ?n) = poolA g mod ?n"
    by (simp add: minus_mult_div_eq_mod)
  have fl: "0 \<le> poolA g \<longrightarrow>
               bigint_div (poolA g) ?n = poolA g div ?n
             \<and> poolA g - ?n * bigint_div (poolA g) ?n = poolA g mod ?n"
    using rf md by simp
  have pr: "paid_reachable m \<longrightarrow> 0 \<le> poolA g"
    using paid_reachable_pools[of m] g by (auto simp: pools_nonneg_def)
  show ?thesis
    using assms fl pr
    by (auto simp: handleAction_def shootBranch_def finishAction_def Let_def checkChamber_def)
qed

theorem safe_shot_ceiling_terminates_witness:
  "paid_reachable ceiling_table
   \<and> games ceiling_table ''ch'' = Some (the (games ceiling_table ''ch''))
   \<and> state (the (games ceiling_table ''ch'')) = active
   \<and> currentTurnIndex (the (games ceiling_table ''ch''))
        < length (alivePlayers (the (games ceiling_table ''ch'')))
   \<and> toLowerCase (userId (playerStore ceiling_table ! 0)) = toLowerCase ''0xa''
   \<and> isAlive (playerStore ceiling_table ! 0)
   \<and> \<not> checkChamber (the (games ceiling_table ''ch''))
   \<and> consecutiveSafeShots (the (games ceiling_table ''ch'')) + 1
        \<ge> maxSafeShots (config ceiling_table)
   \<and> poolA (the (games ceiling_table ''ch'')) = 901
   \<and> 0 \<le> poolA (the (games ceiling_table ''ch''))
   \<and> length (alivePlayers (the (games ceiling_table ''ch''))) = 3
   \<and> fst (snd (handleAction 5000 (0, 0) ''ch'' ''0xa'' shoot ceiling_table))
        = Success (SafeShotsTerminated 300 [''0xa'', ''0xb'', ''0xc''])
   \<and> map snd (snd (snd (handleAction 5000 (0, 0) ''ch'' ''0xa'' shoot ceiling_table)))
        = [SafeShotsTerminated 300 [''0xa'', ''0xb'', ''0xc'']]
   \<and> map (\<lambda>c. state (fst c)) (snd (snd (handleAction 5000 (0, 0) ''ch'' ''0xa'' shoot ceiling_table)))
        = [finished]
   \<and> games (fst (handleAction 5000 (0, 0) ''ch'' ''0xa'' shoot ceiling_table)) ''ch'' = None"
proof -
  let ?r = "handleAction 5000 (0, 0) ''ch'' ''0xa'' shoot ceiling_table"
  let ?g = "the (games ceiling_table ''ch'')"
  have res: "?r = (fst ?r, fst (snd ?r), snd (snd ?r))" by simp
  have pre: "games ceiling_table ''ch'' = Some ?g"
    "state ?g = active"
    "currentTurnIndex ?g < length (alivePlayers ?g)"
    "toLowerCase (userId (playerStore ceiling_table ! (alivePlayers ?g ! currentTurnIndex ?g))) = toLowerCase ''0xa''"
    "isAlive (playerStore ceiling_table ! (alivePlayers ?g ! currentTurnIndex ?g))"
    "\<not> checkChamber ?g"
    "consecutiveSafeShots ?g + 1 \<ge> maxSafeShots (config ceiling_table)"
    by (simp_all add: ceiling_table_eq checkChamber_def ceiling_config_def DEFAULT_CONFIG_def)
  have post: "currentTurnIndex ?g < length (alivePlayers ?g)"
    "toLowerCase (userId (playerStore ceiling_table ! 0)) = toLowerCase ''0xa''"
    "isAlive (playerStore ceiling_table ! 0)"
    "poolA ?g = 901" "0 \<le> poolA ?g" "length (alivePlayers ?g) = 3"
    by (simp_all add: ceiling_table_eq)
  have ev: "fst (snd ?r) = Success (SafeShotsTerminated 300 [''0xa'', ''0xb'', ''0xc''])"
    "map snd (snd (snd ?r)) = [SafeShotsTerminated 300 [''0xa'', ''0xb'', ''0xc'']]"
    "map (\<lambda>c. state (fst c)) (snd (snd ?r)) = [finished]"
    "games (fst ?r) ''ch'' = None"
    by (simp_all add: ceiling_table_eq ceiling_config_def run_defs)
  note inst = safe_shot_ceiling_terminates [OF pre res]
  show ?thesis
    using inst by (intro conjI) (rule paid_reachable_ceiling_table pre post ev)+
qed

subsection \<open>C8: splitting an entry\<close>

text \<open>
  C8. For every non-negative entry amount and rake percentage,
  \<^verbatim>\<open>calculateEntryDistribution\<close> returns \<open>rake = floor (amount * rakePercent / 100)\<close> and
  \<open>toPoolA = amount - rake\<close>, so that \<open>rake + toPoolA = amount\<close>.
\<close>

theorem calculateEntryDistribution_conserves:
  assumes "0 \<le> amount" and "0 \<le> rakePct"
  shows "fst (calculateEntryDistribution amount rakePct) = (amount * rakePct) div 100
       \<and> snd (calculateEntryDistribution amount rakePct)
           = amount - fst (calculateEntryDistribution amount rakePct)
       \<and> fst (calculateEntryDistribution amount rakePct)
           + snd (calculateEntryDistribution amount rakePct) = amount"
  using assms by (simp add: calculateEntryDistribution_def Let_def bigint_div_nonneg)

theorem calculateEntryDistribution_conserves_witness:
  "(0::int) \<le> 1005 \<and> (0::int) \<le> 10 \<and> calculateEntryDistribution 1005 10 = (100, 905)"
  using calculateEntryDistribution_conserves [of 1005 10]
  by (simp add: prod_eq_iff)

subsection \<open>C9: the alive players and the turn index\<close>

text \<open>
  C9. In every state that the methods of the manager lead to, every game of the registry
  has as \<^verbatim>\<open>alivePlayers\<close> exactly its players with \<^verbatim>\<open>isAlive\<close> set, in the order of
  \<^verbatim>\<open>players\<close>, and, when it is active with somebody alive, a turn index below the length
  of \<^verbatim>\<open>alivePlayers\<close>. The same holds of every game that \<^verbatim>\<open>handleAction\<close> passes to the
  callback and of the game that \<^verbatim>\<open>stopGame\<close> returns.
\<close>

theorem alive_players_invariant:
  assumes "reachable m"
  shows "(\<forall>cid g. games m cid = Some g \<longrightarrow>
            alivePlayers g = filter (\<lambda>p. isAlive (playerStore m ! p)) (players g)
          \<and> (state g = active \<and> alivePlayers g \<noteq> [] \<longrightarrow>
                currentTurnIndex g < length (alivePlayers g)))
       \<and> (\<forall>now rnd cid uid a m' out notes g n.
            handleAction now rnd cid uid a m = (m', out, notes) \<and> (g, n) \<in> set notes \<longrightarrow>
            alive_view (playerStore m') g \<and> turn_in_range g)
       \<and> (\<forall>cid m' r g. stopGame cid m = (m', Inr (r, g)) \<longrightarrow>
            alive_view (playerStore m') g \<and> turn_in_range g)"
proof -
  have inv: "manager_inv m" using assms by (rule reachable_manager_inv)
  have 1: "alivePlayers g = filter (\<lambda>p. isAlive (playerStore m ! p)) (players g)
          \<and> (state g = active \<and> alivePlayers g \<noteq> [] \<longrightarrow>
                currentTurnIndex g < length (alivePlayers g))" if "games m cid = Some g" for cid g
    using own_players(3,4)[OF inv that] by (simp add: alive_view_def turn_in_range_def)
  have 2: "alive_view (playerStore m') g \<and> turn_in_range g"
    if "handleAction now rnd cid uid a m = (m', out, calls) \<and> (g, n) \<in> set calls"
    for now rnd cid uid a m' out calls g n
    using handleAction_notes[OF inv, of g n now rnd cid uid a] that by simp
  have 3: "alive_view (playerStore m') g \<and> turn_in_range g"
    if "stopGame cid m = (m', Inr (r, g))" for cid m' r g
  proof -
    from that obtain h where h: "games m cid = Some h" and g: "g = h\<lparr>state := finished\<rparr>"
      and m': "playerStore m' = playerStore m"
      by (auto simp: stopGame_def Let_def split: option.splits if_splits)
    show ?thesis using own_players(3)[OF inv h] g m'
      by (simp add: alive_view_def turn_in_range_def)
  qed
  from 1 2 3 show ?thesis by blast
qed

theorem alive_players_invariant_witness:
  "reachable table3_shot
   \<and> games table3_shot ''ch'' = Some (the (games table3_shot ''ch''))
   \<and> state (the (games table3_shot ''ch'')) = active
   \<and> players (the (games table3_shot ''ch'')) = [0, 1, 2]
   \<and> map isAlive (playerStore table3_shot) = [False, True, True]
   \<and> alivePlayers (the (games table3_shot ''ch'')) = [1, 2]
   \<and> alivePlayers (the (games table3_shot ''ch''))
       = filter (\<lambda>p. isAlive (playerStore table3_shot ! p)) (players (the (games table3_shot ''ch'')))
   \<and> currentTurnIndex (the (games table3_shot ''ch''))
       < length (alivePlayers (the (games table3_shot ''ch'')))
   \<and> reachable table3
   \<and> handleAction 2000 (1, 1) ''ch'' ''0xA'' shoot table3
       = (table3_shot, Success (BangReloaded ''0xA'' 2),
          [(the (games table3_shot ''ch''), BangReloaded ''0xA'' 2)])"
proof -
  let ?g = "the (games table3_shot ''ch'')"
  have res: "handleAction 2000 (1, 1) ''ch'' ''0xA'' shoot table3
       = (table3_shot, Success (BangReloaded ''0xA'' 2), [(?g, BangReloaded ''0xA'' 2)])"
    by (simp add: table3_eq table3_shot_eq run_defs)
  have post: "games table3_shot ''ch'' = Some ?g" "state ?g = active"
    "players ?g = [0, 1, 2]" "map isAlive (playerStore table3_shot) = [False, True, True]"
    "alivePlayers ?g = [1, 2]"
    by (simp_all add: table3_shot_eq)
  have "alivePlayers ?g = filter (\<lambda>p. isAlive (playerStore table3_shot ! p)) (players ?g)
      \<and> (state ?g = active \<and> alivePlayers ?g \<noteq> [] \<longrightarrow>
            currentTurnIndex ?g < length (alivePlayers ?g))"
    using alive_players_invariant [OF reachable_table3_shot] post(1) by blast
  moreover have "alivePlayers ?g \<noteq> []" by (simp add: post(5))
  ultimately
  have a: "alivePlayers ?g = filter (\<lambda>p. isAlive (playerStore table3_shot ! p)) (players ?g)"
    and b: "currentTurnIndex ?g < length (alivePlayers ?g)"
    using post(2) by blast+
  note inst = alive_players_invariant [OF reachable_table3]
  show ?thesis
    using inst by (intro conjI) (rule reachable_table3_shot reachable_table3 post res a b)+
qed

subsection \<open>C10: identities that differ in letter case\<close>



end
